theory Spec2Isabelle
  imports Main "HOL-Library.Product_Lexorder" "HOL-Library.List_Lexorder" "HOL-Library.Char_ord"
begin

section \<open>Cross-page table identification and merging\<close>

text \<open>
  A shallow embedding of \<^verbatim>\<open>sample_identify_and_merge_cross_page_tables.py\<close>.
  Python integers are \<^typ>\<open>int\<close>, Python lists are HOL lists, a raised exception is the
  left injection of a sum type, and the working list of tables (whose slots the merge
  passes overwrite with \<^verbatim>\<open>None\<close>) is a list of options.
\<close>

subsection \<open>Exceptions\<close>

text \<open>
  The first four are the Python exceptions the program can raise. \<open>MalformedTableError\<close>
  is the error kind the specification names; the program defines no exception of its
  own, and no function below returns it.
\<close>

datatype error = IndexError | ValueError | AttributeError | TypeError | MalformedTableError

subsection \<open>Input data: spans, cells, tables, paragraphs\<close>

record span =
  offset :: int
  span_length :: int

text \<open>
  A cell of the analyzer's output. \<open>kind\<close>, \<open>rowSpan\<close> and \<open>columnSpan\<close> are optional
  keys (\<^verbatim>\<open>cell.get(...)\<close>). \<open>cell_spans\<close> is part of the analyzer's cell object; the
  program never reads it.
\<close>

record cell =
  rowIndex :: int
  columnIndex :: int
  kind :: "string option"
  cell_content :: string
  rowSpan :: "int option"
  columnSpan :: "int option"
  cell_spans :: "span list"

text \<open>\<open>bounding_regions\<close> holds the \<^verbatim>\<open>page_number\<close> of each region.\<close>

record raw_table =
  cells :: "cell list"
  spans :: "span list"
  bounding_regions :: "int list"
  tbl_column_count :: int
  tbl_row_count :: int

text \<open>
  A paragraph; \<open>role = None\<close> stands for a paragraph without a role (the attribute is
  missing, or it is present and holds \<^verbatim>\<open>None\<close>: the source answers the same for both).
\<close>

record para =
  par_spans :: "span list"
  role :: "string option"

subsection \<open>Markup\<close>

text \<open>
  The markup strings the program builds are sequences of the pieces it concatenates:
  an opening or closing \<^verbatim>\<open>table\<close>/\<^verbatim>\<open>tr\<close> tag, a complete cell element
  \<^verbatim>\<open><th rowspan=".." colspan="..">text</th>\<close> (or \<^verbatim>\<open>td\<close>), and runs of text.

  The program pastes a text into the string as it is, and the parser reads the string
  again. A text without the characters \<^verbatim>\<open><\<close>, \<^verbatim>\<open>>\<close> and \<^verbatim>\<open>&\<close> (a plain text) is read
  back as character data, which is what the tokens below say. A text with one of these
  characters may be read as further elements, or be rejected by the parser with an
  exception; the tokens do not describe that. \<open>plain_text\<close>, \<open>plain_markup\<close> and
  \<open>plain_cells\<close> delimit the inputs on which the model of the markup follows the
  program, and the statements about what the projection returns assume \<open>plain_cells\<close>.
\<close>

definition markup_chars :: "char list" where
  "markup_chars = [CHR 0x3C, CHR 0x3E, CHR 0x26]"

definition plain_text :: "string \<Rightarrow> bool" where
  "plain_text s = list_all (\<lambda>c. c \<notin> set markup_chars) s"

datatype ctag = Table | Tr

datatype celltag = Th | Td

datatype token =
    TOpen ctag
  | TClose ctag
  | TCell celltag int int string
  | TText string

type_synonym markup = "token list"

fun plain_token :: "token \<Rightarrow> bool" where
  "plain_token (TCell ct rs cs s) = plain_text s"
| "plain_token (TText s) = plain_text s"
| "plain_token (TOpen t) = True"
| "plain_token (TClose t) = True"

definition plain_markup :: "markup \<Rightarrow> bool" where
  "plain_markup m = list_all plain_token m"

definition plain_cells :: "raw_table \<Rightarrow> bool" where
  "plain_cells table = list_all (\<lambda>c. plain_text (cell_content c)) (cells table)"

text \<open>The element tree that the HTML parser builds from a markup string.\<close>

datatype node =
    NText string
  | NCell celltag int int string
  | NElem ctag "node list"

subsection \<open>The working record of a table\<close>

record html_table =
  min_offset :: int
  max_offset :: int
  table_page :: "int list"
  column_count :: int
  header_row_count :: int
  header_text :: "string list"
  non_header_row_count :: int
  content :: markup

record candidate =
  pre_table_idx :: int
  start :: int
  end_offset :: int

subsection \<open>Python list primitives\<close>

text \<open>\<^verbatim>\<open>xs[i]\<close>: a negative index counts from the end, an index out of range raises.\<close>

definition py_index :: "'a list \<Rightarrow> int \<Rightarrow> nat option" where
  "py_index xs i =
     (if 0 \<le> i \<and> i < int (length xs) then Some (nat i)
      else if i < 0 \<and> - int (length xs) \<le> i then Some (nat (int (length xs) + i))
      else None)"

definition py_get :: "'a list \<Rightarrow> int \<Rightarrow> error + 'a" where
  "py_get xs i = (case py_index xs i of None \<Rightarrow> Inl IndexError | Some j \<Rightarrow> Inr (xs ! j))"

definition py_set :: "'a list \<Rightarrow> int \<Rightarrow> 'a \<Rightarrow> error + 'a list" where
  "py_set xs i v = (case py_index xs i of None \<Rightarrow> Inl IndexError | Some j \<Rightarrow> Inr (xs[j := v]))"

text \<open>\<^verbatim>\<open>min(xs)\<close> and \<^verbatim>\<open>max(xs)\<close> raise ValueError on an empty list.\<close>

definition py_min :: "int list \<Rightarrow> error + int" where
  "py_min xs = (case xs of [] \<Rightarrow> Inl ValueError | x # r \<Rightarrow> Inr (fold min r x))"

definition py_max :: "int list \<Rightarrow> error + int" where
  "py_max xs = (case xs of [] \<Rightarrow> Inl ValueError | x # r \<Rightarrow> Inr (fold max r x))"

text \<open>\<^verbatim>\<open>xs[i:j]\<close> with Python's clamping of the two bounds.\<close>

definition py_clamp :: "nat \<Rightarrow> int \<Rightarrow> nat" where
  "py_clamp n i = (if i < 0 then nat (max (int n + i) 0) else min (nat i) n)"

definition py_slice :: "'a list \<Rightarrow> int \<Rightarrow> int \<Rightarrow> 'a list" where
  "py_slice xs i j = (let a = py_clamp (length xs) i; b = py_clamp (length xs) j in take (b - a) (drop a xs))"

text \<open>\<^verbatim>\<open>range(a, b, s)\<close>: ValueError for a zero step.\<close>

function range_up :: "int \<Rightarrow> int \<Rightarrow> int \<Rightarrow> int list" where
  "range_up a b s = (if 0 < s \<and> a < b then a # range_up (a + s) b s else [])"
  by pat_completeness auto
termination
  by (relation "measure (\<lambda>(a, b, s). nat (b - a))") auto

function range_down :: "int \<Rightarrow> int \<Rightarrow> int \<Rightarrow> int list" where
  "range_down a b s = (if s < 0 \<and> b < a then a # range_down (a + s) b s else [])"
  by pat_completeness auto
termination
  by (relation "measure (\<lambda>(a, b, s). nat (a - b))") auto

declare range_up.simps [simp del] range_down.simps [simp del]

definition py_range :: "int \<Rightarrow> int \<Rightarrow> int \<Rightarrow> error + int list" where
  "py_range a b s =
     (if s = 0 then Inl ValueError
      else if 0 < s then Inr (range_up a b s) else Inr (range_down a b s))"

subsection \<open>get_table_page_numbers, get_table_span_offsets\<close>

definition get_table_page_numbers :: "raw_table \<Rightarrow> int list" where
  "get_table_page_numbers table = bounding_regions table"

definition span_step :: "span \<Rightarrow> int \<times> int \<Rightarrow> int \<times> int" where
  "span_step sp acc =
     (let mn = (if offset sp < fst acc then offset sp else fst acc);
          mx = (if offset sp + span_length sp > snd acc then offset sp + span_length sp else snd acc)
      in (mn, mx))"

definition get_table_span_offsets :: "raw_table \<Rightarrow> error + (int \<times> int)" where
  "get_table_span_offsets table =
     (case spans table of
        [] \<Rightarrow> Inl IndexError
      | s0 # _ \<Rightarrow> Inr (fold span_step (spans table) (offset s0, offset s0 + span_length s0)))"

subsection \<open>check_paragraph_presence\<close>

definition furniture_roles :: "string list" where
  "furniture_roles = [''pageHeader'', ''pageFooter'', ''pageNumber'']"

definition span_hit :: "para \<Rightarrow> int \<Rightarrow> int \<Rightarrow> span \<Rightarrow> bool" where
  "span_hit p s e sp =
     (if offset sp > s \<and> offset sp < e
      then (case role p of None \<Rightarrow> True | Some r \<Rightarrow> r \<notin> set furniture_roles)
      else False)"

fun spans_loop :: "para \<Rightarrow> int \<Rightarrow> int \<Rightarrow> span list \<Rightarrow> bool" where
  "spans_loop p s e [] = False"
| "spans_loop p s e (sp # sps) = (if span_hit p s e sp then True else spans_loop p s e sps)"

fun check_paragraph_presence :: "para list \<Rightarrow> int \<Rightarrow> int \<Rightarrow> bool" where
  "check_paragraph_presence [] s e = False"
| "check_paragraph_presence (p # ps) s e =
     (if spans_loop p s e (par_spans p) then True else check_paragraph_presence ps s e)"

subsection \<open>find_merge_table_candidates\<close>

text \<open>
  The loop over \<^verbatim>\<open>enumerate(html_lables)\<close>; its state is the candidate list and the three
  \<^verbatim>\<open>pre_*\<close> variables.
\<close>

fun candidates_loop ::
  "int \<Rightarrow> html_table list \<Rightarrow> candidate list \<Rightarrow> int \<Rightarrow> int \<Rightarrow> int \<Rightarrow> error + candidate list" where
  "candidates_loop table_idx [] cands pre_idx pre_page pre_max = Inr cands"
| "candidates_loop table_idx (t # ts) cands pre_idx pre_page pre_max =
     (case py_min (table_page t) of
        Inl e \<Rightarrow> Inl e
      | Inr tp \<Rightarrow>
          (let cands' =
                 (if tp = pre_page + 1
                  then cands @ [\<lparr>pre_table_idx = pre_idx, start = pre_max, end_offset = min_offset t\<rparr>]
                  else cands)
           in case py_max (table_page t) of
                Inl e \<Rightarrow> Inl e
              | Inr mp \<Rightarrow> candidates_loop (table_idx + 1) ts cands' table_idx mp (max_offset t)))"

definition find_merge_table_candidates :: "html_table list \<Rightarrow> error + candidate list" where
  "find_merge_table_candidates html_lables = candidates_loop 0 html_lables [] (- 1) (- 1) 0"

subsection \<open>table_to_html\<close>

text \<open>\<^verbatim>\<open>content.replace('\\\\', '')\<close>: every pair of backslashes is removed, left to right.\<close>

fun strip_escape :: "string \<Rightarrow> string" where
  "strip_escape (a # b # r) =
     (if a = CHR 0x5C \<and> b = CHR 0x5C then strip_escape r else a # strip_escape (b # r))"
| "strip_escape r = r"

text \<open>
  The cell element of line 62, as one token. For a plain text this is the element the
  parser reads back; see the remark on plain texts above.
\<close>

definition cell_token :: "cell \<Rightarrow> token" where
  "cell_token c =
     TCell (if kind c = Some ''columnHeader'' then Th else Td)
       (case rowSpan c of None \<Rightarrow> 1 | Some n \<Rightarrow> n)
       (case columnSpan c of None \<Rightarrow> 1 | Some n \<Rightarrow> n)
       (strip_escape (cell_content c))"

text \<open>One pass of the loop body; the state is \<^verbatim>\<open>html\<close> and \<^verbatim>\<open>current_row\<close>.\<close>

definition cell_step :: "cell \<Rightarrow> markup \<times> int \<Rightarrow> markup \<times> int" where
  "cell_step c st =
     (let html1 = (if rowIndex c \<noteq> snd st then fst st @ [TClose Tr] else fst st);
          st2 = (if columnIndex c = 0 \<or> rowIndex c \<noteq> snd st
                 then (html1 @ [TOpen Tr], rowIndex c) else (html1, snd st))
      in (fst st2 @ [cell_token c], snd st2))"

definition sorted_cells :: "raw_table \<Rightarrow> cell list" where
  "sorted_cells table = sort_key (\<lambda>x. (rowIndex x, columnIndex x)) (cells table)"

definition table_to_html :: "raw_table \<Rightarrow> error + markup" where
  "table_to_html table =
     (case sorted_cells table of
        [] \<Rightarrow> Inl IndexError
      | c0 # _ \<Rightarrow>
          Inr (fst (fold cell_step (sorted_cells table) ([TOpen Table, TText [CHR 0x0A]], rowIndex c0))
               @ [TClose Tr, TClose Table]))"

subsection \<open>The HTML parser and the tree queries the program uses\<close>

text \<open>
  \<^verbatim>\<open>BeautifulSoup(markup, 'html.parser')\<close> builds the tree with a stack of open elements
  and closes nothing by itself: a start tag opens a child of the innermost open element,
  an end tag closes the innermost open element of that name together with everything
  opened inside it, and is ignored when no such element is open; the end of the input
  closes what is still open. A run of text becomes one text node; a run made of ASCII
  white space only is replaced by a single newline (when it has one) or a single blank.

  \<open>parse\<close> is the tree for a markup of plain texts (\<open>plain_markup\<close>). On other markup
  the parser may build other trees or raise; \<open>parse\<close> does not describe that.
\<close>

type_synonym frame = "ctag \<times> node list"

definition ascii_spaces :: "char list" where
  "ascii_spaces = [CHR 0x20, CHR 0x0A, CHR 0x09, CHR 0x0C, CHR 0x0D]"

definition norm_text :: "string \<Rightarrow> string" where
  "norm_text s =
     (if s \<noteq> [] \<and> list_all (\<lambda>c. c \<in> set ascii_spaces) s
      then (if CHR 0x0A \<in> set s then [CHR 0x0A] else [CHR 0x20])
      else s)"

definition add_children :: "node list \<Rightarrow> frame list \<Rightarrow> node list \<Rightarrow> frame list \<times> node list" where
  "add_children ns stk root =
     (case stk of [] \<Rightarrow> ([], root @ ns) | (t, ch) # fs \<Rightarrow> ((t, ch @ ns) # fs, root))"

definition end_data :: "string \<Rightarrow> frame list \<Rightarrow> node list \<Rightarrow> frame list \<times> node list" where
  "end_data pending stk root =
     (if pending = [] then (stk, root) else add_children [NText (norm_text pending)] stk root)"

text \<open>Closing frames from the innermost outwards; \<open>extra\<close> are the nodes just closed.\<close>

fun pop_to :: "ctag \<Rightarrow> node list \<Rightarrow> frame list \<Rightarrow> node list \<Rightarrow> frame list \<times> node list" where
  "pop_to t extra [] root = ([], root @ extra)"
| "pop_to t extra ((u, ch) # fs) root =
     (if u = t then add_children [NElem u (ch @ extra)] fs root
      else pop_to t [NElem u (ch @ extra)] fs root)"

fun close_frames :: "node list \<Rightarrow> frame list \<Rightarrow> node list" where
  "close_frames extra [] = extra"
| "close_frames extra ((u, ch) # fs) = close_frames [NElem u (ch @ extra)] fs"

definition feed :: "token \<Rightarrow> string \<times> frame list \<times> node list \<Rightarrow> string \<times> frame list \<times> node list" where
  "feed tok st =
     (case st of (pending, stk, root) \<Rightarrow>
        (case tok of
           TText s \<Rightarrow> (pending @ s, stk, root)
         | TOpen t \<Rightarrow>
             (case end_data pending stk root of (stk1, root1) \<Rightarrow> ([], (t, []) # stk1, root1))
         | TClose t \<Rightarrow>
             (case end_data pending stk root of (stk1, root1) \<Rightarrow>
                (if t \<in> set (map fst stk1)
                 then (case pop_to t [] stk1 root1 of (stk2, root2) \<Rightarrow> ([], stk2, root2))
                 else ([], stk1, root1)))
         | TCell ct rs cs s \<Rightarrow>
             (case end_data pending stk root of (stk1, root1) \<Rightarrow>
                (case add_children [NCell ct rs cs (norm_text s)] stk1 root1 of
                   (stk2, root2) \<Rightarrow> ([], stk2, root2)))))"

definition parse :: "markup \<Rightarrow> node list" where
  "parse m =
     (case fold feed m ([], [], []) of (pending, stk, root) \<Rightarrow>
        (case end_data pending stk root of (stk1, root1) \<Rightarrow> root1 @ close_frames [] stk1))"

text \<open>\<^verbatim>\<open>str(tag)\<close>: the markup of a tree.\<close>

fun render :: "node \<Rightarrow> markup" where
  "render (NText s) = [TText s]"
| "render (NCell ct rs cs s) = [TCell ct rs cs s]"
| "render (NElem t ch) = TOpen t # concat (map render ch) @ [TClose t]"

text \<open>The descendants of a node in document order, as \<^verbatim>\<open>find_all\<close> visits them.\<close>

fun descendants :: "node \<Rightarrow> node list" where
  "descendants (NElem t ch) = concat (map (\<lambda>c. c # descendants c) ch)"
| "descendants (NText s) = []"
| "descendants (NCell ct rs cs s) = []"

definition forest_nodes :: "node list \<Rightarrow> node list" where
  "forest_nodes ns = concat (map (\<lambda>c. c # descendants c) ns)"

fun is_table :: "node \<Rightarrow> bool" where
  "is_table (NElem t ch) = (t = Table)"
| "is_table n = False"

fun is_tr :: "node \<Rightarrow> bool" where
  "is_tr (NElem t ch) = (t = Tr)"
| "is_tr n = False"

fun is_th :: "node \<Rightarrow> bool" where
  "is_th (NCell ct rs cs s) = (ct = Th)"
| "is_th n = False"

fun is_cell :: "node \<Rightarrow> bool" where
  "is_cell (NCell ct rs cs s) = True"
| "is_cell n = False"

fun get_text :: "node \<Rightarrow> string" where
  "get_text (NCell ct rs cs s) = s"
| "get_text (NText s) = s"
| "get_text (NElem t ch) = concat (map get_text ch)"

fun children :: "node \<Rightarrow> node list" where
  "children (NElem t ch) = ch"
| "children n = []"

text \<open>\<^verbatim>\<open>soup.find('table')\<close>: the first table element, or \<^verbatim>\<open>None\<close>.\<close>

definition find_table :: "node list \<Rightarrow> node option" where
  "find_table soup = (case filter is_table (forest_nodes soup) of [] \<Rightarrow> None | t # _ \<Rightarrow> Some t)"

definition find_all_tr :: "node \<Rightarrow> node list" where
  "find_all_tr n = filter is_tr (descendants n)"

text \<open>\<^verbatim>\<open>tag.find('th')\<close> as a truth value.\<close>

definition has_th :: "node \<Rightarrow> bool" where
  "has_th n = list_ex is_th (descendants n)"

text \<open>\<^verbatim>\<open>find_all(lambda tag: tag.name == 'tr' and tag.find('th'))\<close> and its negated twin.\<close>

definition find_header_rows :: "node \<Rightarrow> node list" where
  "find_header_rows n = filter has_th (find_all_tr n)"

definition find_non_header_rows :: "node \<Rightarrow> node list" where
  "find_non_header_rows n = filter (\<lambda>r. \<not> has_th r) (find_all_tr n)"

subsection \<open>prepare_html_tables\<close>

text \<open>The body of the loop, for one table.\<close>

definition prepare_html_table :: "raw_table \<Rightarrow> error + html_table" where
  "prepare_html_table table =
     (case get_table_span_offsets table of
        Inl e \<Rightarrow> Inl e
      | Inr (mn, mx) \<Rightarrow>
          (case table_to_html table of
             Inl e \<Rightarrow> Inl e
           | Inr data_html \<Rightarrow>
               (case find_table (parse data_html) of
                  None \<Rightarrow> Inl AttributeError
                | Some souptable \<Rightarrow>
                    (let header_rows_count = int (length (find_header_rows souptable));
                         header_cell_texts =
                           sort (map get_text (filter is_th (forest_nodes (parse data_html))))
                     in Inr \<lparr>min_offset = mn, max_offset = mx,
                             table_page = get_table_page_numbers table,
                             column_count = tbl_column_count table,
                             header_row_count = header_rows_count,
                             header_text = header_cell_texts,
                             non_header_row_count = tbl_row_count table - header_rows_count,
                             content = data_html\<rparr>))))"

fun prepare_html_tables :: "raw_table list \<Rightarrow> error + html_table list" where
  "prepare_html_tables [] = Inr []"
| "prepare_html_tables (t # ts) =
     (case prepare_html_table t of
        Inl e \<Rightarrow> Inl e
      | Inr h \<Rightarrow> (case prepare_html_tables ts of Inl e \<Rightarrow> Inl e | Inr hs \<Rightarrow> Inr (h # hs)))"

subsection \<open>merge_tables_colum_wise\<close>

text \<open>
  The loop \<^verbatim>\<open>for row1, row2 in zip(table1.find_all('tr'), table2.find_all('tr'))\<close> moves the
  cells found under \<open>row2\<close> to the end of \<open>row1\<close>. Both row lists are taken before the loop,
  in document order. \<open>tr_groups\<close> lists, for each row of the second table, the cells the
  loop finds under it when its turn comes: a row nested in another row finds none, its
  cells having been moved away with the outer row's.
\<close>

fun tr_groups :: "bool \<Rightarrow> node \<Rightarrow> node list list" where
  "tr_groups inside (NElem t ch) =
     (if t = Tr
      then (if inside then [] else filter is_cell (descendants (NElem t ch)))
           # concat (map (tr_groups True) ch)
      else concat (map (tr_groups inside) ch))"
| "tr_groups inside (NText s) = []"
| "tr_groups inside (NCell ct rs cs s) = []"

text \<open>
  \<open>append_cols\<close> walks the first table in document order and appends to each row the
  group of its partner, while groups are left (\<^verbatim>\<open>zip\<close> stops at the shorter list).
\<close>

fun append_cols :: "node \<Rightarrow> node list list \<Rightarrow> node \<times> node list list"
  and append_cols_list :: "node list \<Rightarrow> node list list \<Rightarrow> node list \<times> node list list" where
  "append_cols (NElem t ch) gs =
     (if t = Tr
      then (case gs of
              [] \<Rightarrow> (NElem t ch, [])
            | g # gs' \<Rightarrow> (case append_cols_list ch gs' of (ch', r) \<Rightarrow> (NElem t (ch' @ g), r)))
      else (case append_cols_list ch gs of (ch', r) \<Rightarrow> (NElem t ch', r)))"
| "append_cols (NText s) gs = (NText s, gs)"
| "append_cols (NCell ct rs cs s) gs = (NCell ct rs cs s, gs)"
| "append_cols_list [] gs = ([], gs)"
| "append_cols_list (n # ns) gs =
     (case append_cols n gs of (n', r) \<Rightarrow>
        (case append_cols_list ns r of (ns', r') \<Rightarrow> (n' # ns', r')))"

definition merge_tables_colum_wise :: "html_table \<Rightarrow> html_table \<Rightarrow> error + html_table" where
  "merge_tables_colum_wise table1_html table2_html =
     (case find_table (parse (content table1_html)) of
        None \<Rightarrow> Inl AttributeError
      | Some table1 \<Rightarrow>
          (case find_table (parse (content table2_html)) of
             None \<Rightarrow> Inl AttributeError
           | Some table2 \<Rightarrow>
               (let groups = concat (map (tr_groups False) (children table2));
                    merged = NElem Table (fst (append_cols_list (children table1) groups))
                in Inr \<lparr>min_offset = min (min_offset table1_html) (min_offset table2_html),
                        max_offset = max (max_offset table1_html) (max_offset table2_html),
                        table_page = sort (table_page table1_html @ table_page table2_html),
                        column_count = column_count table1_html + column_count table2_html,
                        header_row_count = header_row_count table1_html,
                        header_text = sort (header_text table1_html @ header_text table2_html),
                        non_header_row_count = non_header_row_count table1_html,
                        content = render merged\<rparr>)))"

subsection \<open>merge_tables_row_wise\<close>

text \<open>
  \<^verbatim>\<open>table1.append(row)\<close> moves \<open>row\<close> to the end of the first table. The rows moved are a
  tail of the second table's rows in document order, so a row nested in a moved row is
  moved out of it in its own turn: each row arrives without the rows it contained.
\<close>

fun strip_rows :: "node \<Rightarrow> node" where
  "strip_rows (NElem t ch) =
     NElem t (concat (map (\<lambda>c. if is_tr c then [] else [strip_rows c]) ch))"
| "strip_rows (NText s) = NText s"
| "strip_rows (NCell ct rs cs s) = NCell ct rs cs s"

definition merge_tables_row_wise :: "html_table \<Rightarrow> html_table \<Rightarrow> error + html_table" where
  "merge_tables_row_wise table1_html table2_html =
     (case find_table (parse (content table2_html)) of
        None \<Rightarrow> Inl AttributeError
      | Some table2 \<Rightarrow>
          (let start_index = length (find_header_rows table2);
               rows = drop start_index (find_all_tr table2);
               merged =
                 (case find_table (parse (content table1_html)) of
                    None \<Rightarrow> (if rows = [] then Inr [TText ''None''] else Inl AttributeError)
                  | Some table1 \<Rightarrow>
                      Inr (render (NElem Table (children table1 @ map strip_rows rows))))
           in case merged of
                Inl e \<Rightarrow> Inl e
              | Inr str_table1 \<Rightarrow>
                  Inr \<lparr>min_offset = min (min_offset table1_html) (min_offset table2_html),
                       max_offset = max (max_offset table1_html) (max_offset table2_html),
                       table_page = sort (table_page table1_html @ table_page table2_html),
                       column_count = column_count table1_html,
                       header_row_count = header_row_count table1_html,
                       header_text = header_text table1_html,
                       non_header_row_count =
                         non_header_row_count table1_html + non_header_row_count table2_html,
                       content = str_table1\<rparr>))"

subsection \<open>check_and_merge_column_wise, check_and_merge_row_wise\<close>

text \<open>
  The working list is mutated in place; the model returns it. Subscripting a slot that
  holds \<^verbatim>\<open>None\<close> raises TypeError. The second assignment to \<^verbatim>\<open>has_paragraph\<close> is the
  source's line 314 (337 in the row-wise pass).
\<close>

fun check_and_merge_column_wise ::
  "para list \<Rightarrow> html_table option list \<Rightarrow> candidate list \<Rightarrow> error + html_table option list" where
  "check_and_merge_column_wise paragraphs html_tables [] = Inr html_tables"
| "check_and_merge_column_wise paragraphs html_tables (c # cs) =
     (let table_idx = pre_table_idx c;
          has_paragraph = check_paragraph_presence paragraphs (start c) (end_offset c);
          has_paragraph = False
      in case py_get html_tables table_idx of
           Inl e \<Rightarrow> Inl e
         | Inr table1 \<Rightarrow>
       (case py_get html_tables (table_idx + 1) of
           Inl e \<Rightarrow> Inl e
         | Inr table2 \<Rightarrow>
       (if has_paragraph then check_and_merge_column_wise paragraphs html_tables cs
        else (case table1 of
           None \<Rightarrow> Inl TypeError
         | Some t1 \<Rightarrow>
       (case table2 of
           None \<Rightarrow> Inl TypeError
         | Some t2 \<Rightarrow>
       (if header_row_count t1 = header_row_count t2
           \<and> non_header_row_count t1 = non_header_row_count t2
        then (case merge_tables_colum_wise t1 t2 of
           Inl e \<Rightarrow> Inl e
         | Inr m \<Rightarrow>
       (case py_set html_tables (table_idx + 1) (Some m) of
           Inl e \<Rightarrow> Inl e
         | Inr tables1 \<Rightarrow>
       (case py_set tables1 table_idx None of
           Inl e \<Rightarrow> Inl e
         | Inr tables2 \<Rightarrow> check_and_merge_column_wise paragraphs tables2 cs)))
        else check_and_merge_column_wise paragraphs html_tables cs))))))"

fun check_and_merge_row_wise ::
  "para list \<Rightarrow> html_table option list \<Rightarrow> candidate list \<Rightarrow> error + html_table option list" where
  "check_and_merge_row_wise paragraphs html_tables [] = Inr html_tables"
| "check_and_merge_row_wise paragraphs html_tables (c # cs) =
     (let table_idx = pre_table_idx c;
          has_paragraph = check_paragraph_presence paragraphs (start c) (end_offset c);
          has_paragraph = False
      in case py_get html_tables table_idx of
           Inl e \<Rightarrow> Inl e
         | Inr table1 \<Rightarrow>
       (case py_get html_tables (table_idx + 1) of
           Inl e \<Rightarrow> Inl e
         | Inr table2 \<Rightarrow>
       (if has_paragraph then check_and_merge_row_wise paragraphs html_tables cs
        else (case table1 of
           None \<Rightarrow> Inl TypeError
         | Some t1 \<Rightarrow>
       (case table2 of
           None \<Rightarrow> Inl TypeError
         | Some t2 \<Rightarrow>
       (if column_count t1 = column_count t2
           \<and> ((header_row_count t1 \<le> 0 \<and> header_row_count t2 \<le> 0)
              \<or> (header_row_count t1 = header_row_count t2 \<and> header_text t1 = header_text t2))
        then (case merge_tables_row_wise t1 t2 of
           Inl e \<Rightarrow> Inl e
         | Inr m \<Rightarrow>
       (case py_set html_tables (table_idx + 1) (Some m) of
           Inl e \<Rightarrow> Inl e
         | Inr tables1 \<Rightarrow>
       (case py_set tables1 table_idx None of
           Inl e \<Rightarrow> Inl e
         | Inr tables2 \<Rightarrow> check_and_merge_row_wise paragraphs tables2 cs)))
        else check_and_merge_row_wise paragraphs html_tables cs))))))"

subsection \<open>chunks, split_table_with_headers\<close>

definition chunks :: "'a list \<Rightarrow> int \<Rightarrow> int \<Rightarrow> error + 'a list list" where
  "chunks list start_index chunk_size =
     (case py_range start_index (int (length list)) chunk_size of
        Inl e \<Rightarrow> Inl e
      | Inr is \<Rightarrow> Inr (map (\<lambda>i. py_slice list i (i + chunk_size)) is))"

text \<open>
  \<^verbatim>\<open>str(rows)[1:-1]\<close> is the markup of the rows separated by a comma and a blank;
  \<^verbatim>\<open>.replace('</tr>, <tr>', '</tr><tr>')\<close> deletes such a separator wherever it stands
  between a closing and an opening row tag.
\<close>

fun join_rows :: "node list \<Rightarrow> markup" where
  "join_rows [] = []"
| "join_rows [r] = render r"
| "join_rows (r # rs) = render r @ TText '', '' # join_rows rs"

fun replace_sep :: "markup \<Rightarrow> markup" where
  "replace_sep (TClose c # TText s # TOpen d # r) =
     (if c = Tr \<and> s = '', '' \<and> d = Tr then TClose c # replace_sep (TOpen d # r)
      else TClose c # replace_sep (TText s # TOpen d # r))"
| "replace_sep (x # r) = x # replace_sep r"
| "replace_sep [] = []"

definition rows_string :: "node list \<Rightarrow> markup" where
  "rows_string rows = replace_sep (join_rows rows)"

definition split_table_with_headers :: "html_table \<Rightarrow> int \<Rightarrow> error + html_table list" where
  "split_table_with_headers table_html table_max_rows =
     (case find_table (parse (content table_html)) of
        None \<Rightarrow> Inl AttributeError
      | Some table \<Rightarrow>
          (let header_rows = find_header_rows table;
               non_header_rows = find_non_header_rows table;
               header_string = (if header_rows \<noteq> [] then rows_string header_rows else [])
           in case chunks non_header_rows 0 table_max_rows of
                Inl e \<Rightarrow> Inl e
              | Inr cs \<Rightarrow>
                  Inr (map (\<lambda>chunk.
                         (let new_table0 = [TOpen Table];
                              new_table1 = new_table0 @ header_string;
                              new_table2 = (if header_rows \<noteq> [] then new_table1 @ rows_string chunk else []);
                              new_table = new_table2 @ [TClose Table]
                          in table_html\<lparr>content := new_table\<rparr>)) cs)))"

subsection \<open>identify_cross_page_tables\<close>

definition compact :: "html_table option list \<Rightarrow> html_table list" where
  "compact html_tables = concat (map (\<lambda>x. case x of None \<Rightarrow> [] | Some t \<Rightarrow> [t]) html_tables)"

fun split_all :: "html_table list \<Rightarrow> int \<Rightarrow> error + html_table list" where
  "split_all [] table_max_rows = Inr []"
| "split_all (t # ts) table_max_rows =
     (case split_table_with_headers t table_max_rows of
        Inl e \<Rightarrow> Inl e
      | Inr fs \<Rightarrow> (case split_all ts table_max_rows of Inl e \<Rightarrow> Inl e | Inr r \<Rightarrow> Inr (fs @ r)))"

definition merge_pass ::
  "(para list \<Rightarrow> html_table option list \<Rightarrow> candidate list \<Rightarrow> error + html_table option list)
   \<Rightarrow> para list \<Rightarrow> html_table list \<Rightarrow> error + html_table list" where
  "merge_pass check_and_merge paragraphs html_tables =
     (case find_merge_table_candidates html_tables of
        Inl e \<Rightarrow> Inl e
      | Inr merge_tables_candidates \<Rightarrow>
          (case check_and_merge paragraphs (map Some html_tables) merge_tables_candidates of
             Inl e \<Rightarrow> Inl e
           | Inr merged \<Rightarrow> Inr (compact merged)))"

definition identify_cross_page_tables ::
  "raw_table list \<Rightarrow> para list \<Rightarrow> int \<Rightarrow> error + html_table list" where
  "identify_cross_page_tables tables paragraphs table_max_rows =
     (case prepare_html_tables tables of
        Inl e \<Rightarrow> Inl e
      | Inr html_tables \<Rightarrow>
          (case merge_pass check_and_merge_column_wise paragraphs html_tables of
             Inl e \<Rightarrow> Inl e
           | Inr html_tables1 \<Rightarrow>
               (case merge_pass check_and_merge_row_wise paragraphs html_tables1 of
                  Inl e \<Rightarrow> Inl e
                | Inr html_tables2 \<Rightarrow> split_all html_tables2 table_max_rows)))"

section \<open>Reference definitions and example inputs\<close>

subsection \<open>The candidates of adjacent pairs, as the specification words them\<close>

text \<open>
  The candidate of the adjacent pair \<open>(i, i + 1)\<close>: present when the later table's
  minimum page is the earlier table's maximum page plus one; it carries the earlier
  table's index and the gap between the earlier table's \<open>max_offset\<close> and the later
  table's \<open>min_offset\<close>.
\<close>

definition step_candidate :: "nat \<Rightarrow> html_table \<Rightarrow> html_table \<Rightarrow> candidate list" where
  "step_candidate k a b =
     (if Min (set (table_page b)) = Max (set (table_page a)) + 1
      then [\<lparr>pre_table_idx = int k, start = max_offset a, end_offset = min_offset b\<rparr>]
      else [])"

definition pair_candidate :: "html_table list \<Rightarrow> nat \<Rightarrow> candidate list" where
  "pair_candidate ts i = step_candidate i (ts ! i) (ts ! Suc i)"

definition adjacent_candidates :: "html_table list \<Rightarrow> candidate list" where
  "adjacent_candidates ts = concat (map (pair_candidate ts) [0..<length ts - 1])"

text \<open>
  What the loop emits at the first table, where \<^verbatim>\<open>pre_table_page\<close> and
  \<^verbatim>\<open>pre_table_idx\<close> still hold their initial \<open>-1\<close> and \<^verbatim>\<open>pre_max_offset\<close> its initial 0.
\<close>

definition first_candidate :: "html_table list \<Rightarrow> candidate list" where
  "first_candidate ts =
     (case ts of
        [] \<Rightarrow> []
      | t # _ \<Rightarrow>
          if Min (set (table_page t)) = 0
          then [\<lparr>pre_table_idx = - 1, start = 0, end_offset = min_offset t\<rparr>] else [])"

fun pairs_from :: "nat \<Rightarrow> html_table \<Rightarrow> html_table list \<Rightarrow> candidate list" where
  "pairs_from k t0 [] = []"
| "pairs_from k t0 (t1 # ts) = step_candidate k t0 t1 @ pairs_from (Suc k) t1 ts"

subsection \<open>Example inputs\<close>

definition mk_cell :: "int \<Rightarrow> int \<Rightarrow> string option \<Rightarrow> string \<Rightarrow> cell" where
  "mk_cell r c k s =
     \<lparr>rowIndex = r, columnIndex = c, kind = k, cell_content = s,
      rowSpan = None, columnSpan = None, cell_spans = []\<rparr>"

text \<open>
  Two one-column tables on consecutive pages, each with one header row and one body row,
  and a paragraph without a role at offset 410, between them.
\<close>

definition ex_raw_a :: raw_table where
  "ex_raw_a =
     \<lparr>cells = [mk_cell 0 0 (Some ''columnHeader'') ''H'', mk_cell 1 0 None ''a''],
      spans = [\<lparr>offset = 100, span_length = 300\<rparr>],
      bounding_regions = [1], tbl_column_count = 1, tbl_row_count = 2\<rparr>"

definition ex_raw_b :: raw_table where
  "ex_raw_b =
     \<lparr>cells = [mk_cell 0 0 (Some ''columnHeader'') ''H'', mk_cell 1 0 None ''b''],
      spans = [\<lparr>offset = 420, span_length = 280\<rparr>],
      bounding_regions = [2], tbl_column_count = 1, tbl_row_count = 2\<rparr>"

definition ex_paragraphs :: "para list" where
  "ex_paragraphs = [\<lparr>par_spans = [\<lparr>offset = 410, span_length = 5\<rparr>], role = None\<rparr>]"

definition ex_a :: html_table where
  "ex_a =
     \<lparr>min_offset = 100, max_offset = 400, table_page = [1], column_count = 1,
      header_row_count = 1, header_text = [''H''], non_header_row_count = 1,
      content = [TOpen Table, TText [CHR 0x0A], TOpen Tr, TCell Th 1 1 ''H'', TClose Tr,
                 TOpen Tr, TCell Td 1 1 ''a'', TClose Tr, TClose Table]\<rparr>"

definition ex_b :: html_table where
  "ex_b =
     \<lparr>min_offset = 420, max_offset = 700, table_page = [2], column_count = 1,
      header_row_count = 1, header_text = [''H''], non_header_row_count = 1,
      content = [TOpen Table, TText [CHR 0x0A], TOpen Tr, TCell Th 1 1 ''H'', TClose Tr,
                 TOpen Tr, TCell Td 1 1 ''b'', TClose Tr, TClose Table]\<rparr>"

text \<open>The two tables merged column-wise and row-wise.\<close>

definition ex_ab_columns :: html_table where
  "ex_ab_columns =
     \<lparr>min_offset = 100, max_offset = 700, table_page = [1, 2], column_count = 2,
      header_row_count = 1, header_text = [''H'', ''H''], non_header_row_count = 1,
      content = [TOpen Table, TText [CHR 0x0A], TOpen Tr, TCell Th 1 1 ''H'', TCell Th 1 1 ''H'',
                 TClose Tr, TOpen Tr, TCell Td 1 1 ''a'', TCell Td 1 1 ''b'', TClose Tr,
                 TClose Table]\<rparr>"

definition ex_ab_rows :: html_table where
  "ex_ab_rows =
     \<lparr>min_offset = 100, max_offset = 700, table_page = [1, 2], column_count = 1,
      header_row_count = 1, header_text = [''H''], non_header_row_count = 2,
      content = [TOpen Table, TText [CHR 0x0A], TOpen Tr, TCell Th 1 1 ''H'', TClose Tr,
                 TOpen Tr, TCell Td 1 1 ''a'', TClose Tr, TOpen Tr, TCell Td 1 1 ''b'', TClose Tr,
                 TClose Table]\<rparr>"

definition ex_candidate :: candidate where
  "ex_candidate = \<lparr>pre_table_idx = 0, start = 400, end_offset = 420\<rparr>"

text \<open>The two tables moved to pages 0 and 5.\<close>

definition ex_page0 :: html_table where
  "ex_page0 = ex_a\<lparr>table_page := [0]\<rparr>"

definition ex_page5 :: html_table where
  "ex_page5 = ex_b\<lparr>table_page := [5]\<rparr>"

text \<open>A table whose only declared span is narrower than the span of its cell.\<close>

definition ex_cell_spans :: raw_table where
  "ex_cell_spans =
     \<lparr>cells = [(mk_cell 0 0 None ''a'')\<lparr>cell_spans := [\<lparr>offset = 0, span_length = 100\<rparr>]\<rparr>],
      spans = [\<lparr>offset = 10, span_length = 5\<rparr>],
      bounding_regions = [1], tbl_column_count = 1, tbl_row_count = 1\<rparr>"

text \<open>A table without cells.\<close>

definition ex_no_cells :: raw_table where
  "ex_no_cells =
     \<lparr>cells = [], spans = [\<lparr>offset = 0, span_length = 10\<rparr>],
      bounding_regions = [1], tbl_column_count = 0, tbl_row_count = 0\<rparr>"

text \<open>A table whose second row is the header row.\<close>

definition ex_late_header :: raw_table where
  "ex_late_header =
     \<lparr>cells = [mk_cell 0 0 None ''a'', mk_cell 1 0 (Some ''columnHeader'') ''H''],
      spans = [\<lparr>offset = 0, span_length = 10\<rparr>],
      bounding_regions = [1], tbl_column_count = 1, tbl_row_count = 2\<rparr>"

text \<open>Working records: a table without header rows, and a table of one header row only.\<close>

definition ex_no_header :: html_table where
  "ex_no_header =
     \<lparr>min_offset = 0, max_offset = 10, table_page = [1], column_count = 1,
      header_row_count = 0, header_text = [], non_header_row_count = 2,
      content = [TOpen Table, TText [CHR 0x0A], TOpen Tr, TCell Td 1 1 ''a'', TClose Tr,
                 TOpen Tr, TCell Td 1 1 ''b'', TClose Tr, TClose Table]\<rparr>"

definition ex_header_only :: html_table where
  "ex_header_only =
     \<lparr>min_offset = 0, max_offset = 10, table_page = [1], column_count = 1,
      header_row_count = 1, header_text = [''H''], non_header_row_count = 0,
      content = [TOpen Table, TText [CHR 0x0A], TOpen Tr, TCell Th 1 1 ''H'', TClose Tr,
                 TClose Table]\<rparr>"

subsection \<open>The specification's reading of the offsets and of the header rows\<close>

text \<open>
  The interval the specification describes: minimum and maximum over the spans of all
  cells of the table.
\<close>

definition all_cell_spans :: "raw_table \<Rightarrow> span list" where
  "all_cell_spans table = concat (map cell_spans (cells table))"

definition cell_span_bounds :: "raw_table \<Rightarrow> int \<times> int" where
  "cell_span_bounds table =
     (Min (offset ` set (all_cell_spans table)),
      Max ((\<lambda>s. offset s + span_length s) ` set (all_cell_spans table)))"

text \<open>
  The rows of a table by row index, in increasing order, and the two ways of counting
  header rows: the leading rows that hold a header cell (the specification's), and all
  rows that hold one.
\<close>

definition is_header_cell :: "cell \<Rightarrow> bool" where
  "is_header_cell c \<longleftrightarrow> kind c = Some ''columnHeader''"

definition row_indices :: "raw_table \<Rightarrow> int list" where
  "row_indices table = remdups (map rowIndex (sorted_cells table))"

definition row_has_header :: "raw_table \<Rightarrow> int \<Rightarrow> bool" where
  "row_has_header table r = list_ex (\<lambda>c. rowIndex c = r \<and> is_header_cell c) (cells table)"

definition leading_header_rows :: "raw_table \<Rightarrow> int" where
  "leading_header_rows table = int (length (takeWhile (row_has_header table) (row_indices table)))"

definition all_header_rows :: "raw_table \<Rightarrow> int" where
  "all_header_rows table = int (length (filter (row_has_header table) (row_indices table)))"

subsection \<open>Auxiliary notions for the proofs\<close>

text \<open>The tokens the loop of \<open>table_to_html\<close> appends, as a function of the cells.\<close>

fun emitted :: "int \<Rightarrow> cell list \<Rightarrow> markup" where
  "emitted cur [] = []"
| "emitted cur (c # cs) =
     (if rowIndex c \<noteq> cur then [TClose Tr] else [])
     @ (if columnIndex c = 0 \<or> rowIndex c \<noteq> cur then [TOpen Tr] else [])
     @ cell_token c # emitted (rowIndex c) cs"

text \<open>
  Parser invariant: the outermost open element is a table and nothing is finished yet,
  or the first finished top-level node is a table.
\<close>

definition table_inv :: "frame list \<Rightarrow> node list \<Rightarrow> bool" where
  "table_inv stk root \<longleftrightarrow>
     (stk \<noteq> [] \<and> fst (last stk) = Table \<and> root = []) \<or> (root \<noteq> [] \<and> is_table (hd root))"

text \<open>The markup of a working record holds a table element.\<close>

definition has_table :: "html_table \<Rightarrow> bool" where
  "has_table t \<longleftrightarrow> find_table (parse (content t)) \<noteq> None"

subsection \<open>Auxiliary notions for the header row count\<close>

text \<open>The tree node the parser builds for the cell token of a cell.\<close>

definition cell_node :: "cell \<Rightarrow> node" where
  "cell_node c =
     NCell (if kind c = Some ''columnHeader'' then Th else Td)
       (case rowSpan c of None \<Rightarrow> 1 | Some n \<Rightarrow> n)
       (case columnSpan c of None \<Rightarrow> 1 | Some n \<Rightarrow> n)
       (norm_text (strip_escape (cell_content c)))"

text \<open>
  The cells, in the order of \<open>sorted_cells\<close>, open their rows regularly: the first cell
  is in column 0 (so the first row is opened at all), and a later cell in column 0 has
  another row index than the cell before it (so no row is opened inside an open row).
\<close>

fun rows_aligned :: "int \<Rightarrow> cell list \<Rightarrow> bool" where
  "rows_aligned cur [] = True"
| "rows_aligned cur (c # cs) =
     ((rowIndex c \<noteq> cur \<or> columnIndex c \<noteq> 0) \<and> rows_aligned (rowIndex c) cs)"

definition rows_well_rendered :: "raw_table \<Rightarrow> bool" where
  "rows_well_rendered table =
     (case sorted_cells table of
        [] \<Rightarrow> False
      | c0 # cs \<Rightarrow> columnIndex c0 = 0 \<and> rows_aligned (rowIndex c0) cs)"

text \<open>
  A sufficient condition on the cells as given: no two cells share their coordinates, no
  column index is negative, and the least row index has a cell in column 0.
\<close>

definition cell_key :: "cell \<Rightarrow> int \<times> int" where
  "cell_key c = (rowIndex c, columnIndex c)"

definition grid_ok :: "raw_table \<Rightarrow> bool" where
  "grid_ok table \<longleftrightarrow>
     distinct (map cell_key (cells table))
     \<and> list_all (\<lambda>c. 0 \<le> columnIndex c) (cells table)
     \<and> list_ex (\<lambda>c. columnIndex c = 0 \<and> list_all (\<lambda>d. rowIndex c \<le> rowIndex d) (cells table))
          (cells table)"

text \<open>
  The children of the table element that the parser builds from the tokens of regularly
  opened rows: \<open>rc\<close> are the cells of the open row, \<open>done\<close> the finished children.
\<close>

fun build :: "int \<Rightarrow> node list \<Rightarrow> node list \<Rightarrow> cell list \<Rightarrow> node list" where
  "build cur rc done [] = done @ [NElem Tr rc]"
| "build cur rc done (c # cs) =
     (if rowIndex c \<noteq> cur then build (rowIndex c) [cell_node c] (done @ [NElem Tr rc]) cs
      else build cur (rc @ [cell_node c]) done cs)"

fun is_leaf :: "node \<Rightarrow> bool" where
  "is_leaf (NElem t ch) = False"
| "is_leaf n = True"

fun flat :: "node \<Rightarrow> bool" where
  "flat (NElem t ch) = (t = Tr \<and> list_all is_leaf ch)"
| "flat n = True"

text \<open>
  The number of rows with a header cell among the open row (\<open>b\<close>: it has one already)
  and the rows of the cells to come.
\<close>

fun hdr_runs :: "int \<Rightarrow> bool \<Rightarrow> cell list \<Rightarrow> nat" where
  "hdr_runs cur b [] = (if b then 1 else 0)"
| "hdr_runs cur b (c # cs) =
     (if rowIndex c \<noteq> cur then (if b then 1 else 0) + hdr_runs (rowIndex c) (is_header_cell c) cs
      else hdr_runs cur (b \<or> is_header_cell c) cs)"

definition header_rows_set :: "cell list \<Rightarrow> int set" where
  "header_rows_set cs = {r. \<exists>c\<in>set cs. rowIndex c = r \<and> is_header_cell c}"

section \<open>Properties\<close>

subsection \<open>check_paragraph_presence\<close>

lemma spans_loop_iff:
  "spans_loop p s e sps \<longleftrightarrow> (\<exists>sp\<in>set sps. span_hit p s e sp)"
  by (induction sps) auto

lemma check_paragraph_presence_ex:
  "check_paragraph_presence ps s e \<longleftrightarrow> (\<exists>p\<in>set ps. \<exists>sp\<in>set (par_spans p). span_hit p s e sp)"
  by (induction ps) (auto simp: spans_loop_iff)

lemma span_hit_iff:
  "span_hit p s e sp \<longleftrightarrow>
     s < offset sp \<and> offset sp < e \<and>
     (role p = None \<or>
      (\<exists>r. role p = Some r \<and> r \<noteq> ''pageHeader'' \<and> r \<noteq> ''pageFooter'' \<and> r \<noteq> ''pageNumber''))"
  by (cases "role p") (auto simp: span_hit_def furniture_roles_def)

text \<open>
  Claim C8. \<open>check_paragraph_presence\<close> answers True exactly when some paragraph has a span
  whose offset lies strictly between \<open>start\<close> and \<open>end\<close>, and that paragraph has no role or
  a role other than pageHeader, pageFooter and pageNumber.
\<close>

theorem check_paragraph_presence_iff:
  "check_paragraph_presence paragraphs s e \<longleftrightarrow>
     (\<exists>p\<in>set paragraphs. \<exists>sp\<in>set (par_spans p).
        s < offset sp \<and> offset sp < e \<and>
        (role p = None \<or>
         (\<exists>r. role p = Some r \<and> r \<noteq> ''pageHeader'' \<and> r \<noteq> ''pageFooter'' \<and> r \<noteq> ''pageNumber'')))"
  unfolding check_paragraph_presence_ex span_hit_iff ..

theorem check_paragraph_presence_iff_witness:
  "check_paragraph_presence ex_paragraphs 400 420"
proof -
  have "\<exists>p\<in>set ex_paragraphs. \<exists>sp\<in>set (par_spans p).
          (400::int) < offset sp \<and> offset sp < 420 \<and>
          (role p = None \<or>
           (\<exists>r. role p = Some r \<and> r \<noteq> ''pageHeader'' \<and> r \<noteq> ''pageFooter'' \<and> r \<noteq> ''pageNumber''))"
    by (simp add: ex_paragraphs_def)
  then show ?thesis
    by (rule iffD2 [OF check_paragraph_presence_iff])
qed

subsection \<open>find_merge_table_candidates\<close>

lemma py_min_Min: "xs \<noteq> [] \<Longrightarrow> py_min xs = Inr (Min (set xs))"
proof (cases xs)
  case (Cons a r)
  then show ?thesis using Min.set_eq_fold[of a r] by (simp add: py_min_def)
qed simp

lemma py_max_Max: "xs \<noteq> [] \<Longrightarrow> py_max xs = Inr (Max (set xs))"
proof (cases xs)
  case (Cons a r)
  then show ?thesis using Max.set_eq_fold[of a r] by (simp add: py_max_def)
qed simp

lemma candidates_loop_pairs:
  assumes "\<forall>t\<in>set ts. table_page t \<noteq> []"
  shows "candidates_loop (int k + 1) ts cands (int k) (Max (set (table_page t0))) (max_offset t0)
       = Inr (cands @ pairs_from k t0 ts)"
  using assms
proof (induction ts arbitrary: k cands t0)
  case Nil
  then show ?case by simp
next
  case (Cons t1 ts)
  have ne: "table_page t1 \<noteq> []" and rest: "\<forall>t\<in>set ts. table_page t \<noteq> []"
    using Cons.prems by auto
  have IH: "candidates_loop (2 + int k) ts cs (int k + 1) (Max (set (table_page t1))) (max_offset t1)
       = Inr (cs @ pairs_from (Suc k) t1 ts)" for cs
    using Cons.IH[OF rest, of "Suc k" cs t1] by (simp add: add.commute)
  show ?case
    by (simp add: py_min_Min[OF ne] py_max_Max[OF ne] IH step_candidate_def)
qed

lemma pairs_from_index:
  "pairs_from k t0 ts
     = concat (map (\<lambda>i. step_candidate (k + i) ((t0 # ts) ! i) ((t0 # ts) ! Suc i)) [0..<length ts])"
proof (induction ts arbitrary: k t0)
  case Nil
  then show ?case by simp
next
  case (Cons t1 ts)
  have upt: "[0..<length (t1 # ts)] = 0 # map Suc [0..<length ts]"
    by (metis length_Cons map_Suc_upt upt_conv_Cons zero_less_Suc)
  show ?case
    unfolding upt by (simp add: Cons.IH comp_def)
qed

text \<open>
  The whole output, when every table has a page: the candidate of the first table (if
  any) followed by the candidates of the adjacent pairs, in order.
\<close>

lemma find_merge_table_candidates_closed:
  assumes "\<forall>t\<in>set ts. table_page t \<noteq> []"
  shows "find_merge_table_candidates ts = Inr (first_candidate ts @ adjacent_candidates ts)"
proof (cases ts)
  case Nil
  then show ?thesis
    by (simp add: find_merge_table_candidates_def first_candidate_def adjacent_candidates_def)
next
  case (Cons t0 r)
  have ne: "table_page t0 \<noteq> []" and rest: "\<forall>t\<in>set r. table_page t \<noteq> []"
    using assms Cons by auto
  have adj: "adjacent_candidates (t0 # r) = pairs_from 0 t0 r"
    by (simp add: adjacent_candidates_def pair_candidate_def[abs_def] pairs_from_index)
  show ?thesis
    using candidates_loop_pairs[OF rest, of 0 _ t0]
    by (simp add: find_merge_table_candidates_def Cons py_min_Min[OF ne] py_max_Max[OF ne]
        first_candidate_def adj)
qed

lemma find_merge_table_candidates_raises:
  "t \<in> set ts \<Longrightarrow> table_page t = [] \<Longrightarrow> candidates_loop k ts cands i p m = Inl ValueError"
proof (induction ts arbitrary: k cands i p m)
  case Nil
  then show ?case by simp
next
  case (Cons a ts)
  show ?case
  proof (cases "table_page a = []")
    case True
    then show ?thesis by (simp add: py_min_def)
  next
    case False
    then have "t \<in> set ts" using Cons.prems by auto
    then show ?thesis
      using Cons.IH[OF _ Cons.prems(2)] False
      by (simp add: py_min_Min py_max_Max)
  qed
qed

text \<open>
  Claim C6, as amended. On a list of tables that all have a page and whose page numbers
  are all at least 1, \<open>find_merge_table_candidates\<close> returns exactly the candidates of
  the adjacent pairs, in order: one for the pair \<open>(i, i + 1)\<close> when the later table's
  minimum page is the earlier table's maximum page plus 1, none otherwise, each carrying
  \<open>i\<close> and the gap \<open>(max_offset (ts ! i), min_offset (ts ! (i + 1)))\<close>.
\<close>

theorem find_merge_table_candidates_exact:
  assumes "\<forall>t\<in>set ts. table_page t \<noteq> [] \<and> (\<forall>p\<in>set (table_page t). 1 \<le> p)"
  shows "find_merge_table_candidates ts = Inr (adjacent_candidates ts)"
proof -
  have ne: "\<forall>t\<in>set ts. table_page t \<noteq> []" using assms by blast
  have "first_candidate ts = []"
  proof (cases ts)
    case (Cons t r)
    then have "table_page t \<noteq> []" "\<forall>p\<in>set (table_page t). 1 \<le> p" using assms by auto
    then have "1 \<le> Min (set (table_page t))" by simp
    then show ?thesis by (simp add: first_candidate_def Cons)
  qed (simp add: first_candidate_def)
  then show ?thesis
    by (simp add: find_merge_table_candidates_closed[OF ne])
qed

theorem find_merge_table_candidates_exact_witness:
  "find_merge_table_candidates [ex_a, ex_b]
     = Inr [\<lparr>pre_table_idx = 0, start = 400, end_offset = 420\<rparr>]"
proof -
  have h: "\<forall>t\<in>set [ex_a, ex_b]. table_page t \<noteq> [] \<and> (\<forall>p\<in>set (table_page t). 1 \<le> p)"
    by (simp add: ex_a_def ex_b_def)
  have "adjacent_candidates [ex_a, ex_b] = [\<lparr>pre_table_idx = 0, start = 400, end_offset = 420\<rparr>]"
    by (simp add: adjacent_candidates_def pair_candidate_def step_candidate_def ex_a_def ex_b_def)
  then show ?thesis
    using find_merge_table_candidates_exact[OF h] by simp
qed

text \<open>
  The first table on page 0, the second on page 5: no adjacent pair meets the page
  condition, and the function emits a candidate all the same, at the first table, with
  the index \<open>-1\<close> and the start offset 0 that \<^verbatim>\<open>pre_table_idx\<close> and
  \<^verbatim>\<open>pre_max_offset\<close> hold before the loop.
\<close>

theorem find_merge_table_candidates_page_zero:
  "find_merge_table_candidates [ex_page0, ex_page5]
     = Inr [\<lparr>pre_table_idx = - 1, start = 0, end_offset = 100\<rparr>]
   \<and> adjacent_candidates [ex_page0, ex_page5] = []"
  by code_simp

text \<open>
  Claim C10. When every table has a page and every page number is at least 1, every
  candidate's \<open>pre_table_idx\<close> is non-negative and \<open>pre_table_idx + 1\<close> is below the length
  of the list.
\<close>

theorem find_merge_table_candidates_index_range:
  assumes "\<forall>t\<in>set ts. table_page t \<noteq> [] \<and> (\<forall>p\<in>set (table_page t). 1 \<le> p)"
  shows "\<exists>cs. find_merge_table_candidates ts = Inr cs
            \<and> (\<forall>c\<in>set cs. 0 \<le> pre_table_idx c \<and> pre_table_idx c + 1 < int (length ts))"
proof -
  have ne: "\<forall>t\<in>set ts. table_page t \<noteq> []" using assms by blast
  have a: "first_candidate ts = []"
  proof (cases ts)
    case (Cons t r)
    then have "table_page t \<noteq> []" "\<forall>p\<in>set (table_page t). 1 \<le> p" using assms by auto
    then have "1 \<le> Min (set (table_page t))" by simp
    then show ?thesis by (simp add: first_candidate_def Cons)
  qed (simp add: first_candidate_def)
  have b: "\<forall>c\<in>set (adjacent_candidates ts). 0 \<le> pre_table_idx c \<and> pre_table_idx c + 1 < int (length ts)"
    by (auto simp: adjacent_candidates_def pair_candidate_def step_candidate_def split: if_splits)
  show ?thesis
    using b by (simp add: find_merge_table_candidates_closed[OF ne] a)
qed

theorem find_merge_table_candidates_index_range_witness:
  "\<exists>cs. find_merge_table_candidates [ex_a, ex_b] = Inr cs
        \<and> list_all (\<lambda>c. 0 \<le> pre_table_idx c \<and> pre_table_idx c + 1 < 2) cs \<and> cs \<noteq> []"
proof -
  have h: "\<forall>t\<in>set [ex_a, ex_b]. table_page t \<noteq> [] \<and> (\<forall>p\<in>set (table_page t). 1 \<le> p)"
    by (simp add: ex_a_def ex_b_def)
  have ne: "\<forall>t\<in>set [ex_a, ex_b]. table_page t \<noteq> []"
    by (simp add: ex_a_def ex_b_def)
  have "first_candidate [ex_a, ex_b] @ adjacent_candidates [ex_a, ex_b] \<noteq> []"
    by (simp add: adjacent_candidates_def pair_candidate_def step_candidate_def ex_a_def ex_b_def)
  then show ?thesis
    using find_merge_table_candidates_index_range[OF h] find_merge_table_candidates_closed[OF ne]
    by (auto simp: list_all_iff)
qed

subsection \<open>The parser finds the table that table_to_html opens\<close>

lemma table_inv_add_children:
  "table_inv stk root \<Longrightarrow> add_children ns stk root = (stk', root') \<Longrightarrow> table_inv stk' root'"
  by (cases stk) (auto simp: table_inv_def add_children_def split: prod.splits)

lemma table_inv_end_data:
  "table_inv stk root \<Longrightarrow> end_data p stk root = (stk', root') \<Longrightarrow> table_inv stk' root'"
  by (auto simp: end_data_def split: if_splits dest: table_inv_add_children)

lemma table_inv_pop_to:
  "table_inv stk root \<Longrightarrow> pop_to t extra stk root = (stk', root') \<Longrightarrow> table_inv stk' root'"
proof (induction stk arbitrary: extra)
  case Nil
  then show ?case by (auto simp: table_inv_def)
next
  case (Cons f fs)
  obtain u ch where f: "f = (u, ch)" by (cases f)
  show ?case
  proof (cases fs)
    case Nil
    then show ?thesis using Cons.prems f
      by (auto simp: table_inv_def add_children_def split: if_splits)
  next
    case (Cons g gs)
    then have inv: "table_inv fs root" using Cons.prems(1) by (auto simp: table_inv_def)
    show ?thesis
    proof (cases "u = t")
      case True
      then show ?thesis using Cons.prems(2) f table_inv_add_children[OF inv] by auto
    next
      case False
      then show ?thesis using Cons.prems(2) f Cons.IH[OF inv] by auto
    qed
  qed
qed

lemma table_inv_feed:
  assumes inv: "table_inv stk root" and fd: "feed tok (p, stk, root) = (p', stk', root')"
  shows "table_inv stk' root'"
proof -
  obtain s1 r1 where e: "end_data p stk root = (s1, r1)" by (cases "end_data p stk root")
  have i1: "table_inv s1 r1" using table_inv_end_data[OF inv e] .
  show ?thesis
  proof (cases tok)
    case (TOpen t)
    then show ?thesis using fd e i1 by (auto simp: feed_def table_inv_def)
  next
    case (TClose t)
    then show ?thesis using fd e i1 table_inv_pop_to[OF i1]
      by (auto simp: feed_def split: if_splits prod.splits)
  next
    case (TCell ct rs cs s)
    then show ?thesis using fd e table_inv_add_children[OF i1]
      by (auto simp: feed_def split: prod.splits)
  next
    case (TText s)
    then show ?thesis using fd inv by (auto simp: feed_def)
  qed
qed

lemma table_inv_fold:
  "table_inv stk root \<Longrightarrow> fold feed m (p, stk, root) = (p', stk', root') \<Longrightarrow> table_inv stk' root'"
proof (induction m arbitrary: p stk root)
  case Nil
  then show ?case by simp
next
  case (Cons tok m)
  obtain p1 s1 r1 where f: "feed tok (p, stk, root) = (p1, s1, r1)"
    by (cases "feed tok (p, stk, root)")
  have "table_inv s1 r1" using table_inv_feed[OF Cons.prems(1) f] .
  then show ?case using Cons.IH[of s1 r1 p1] Cons.prems(2) f by simp
qed

lemma close_frames_last:
  "stk \<noteq> [] \<Longrightarrow> \<exists>ch. close_frames extra stk = [NElem (fst (last stk)) ch]"
  by (induction extra stk rule: close_frames.induct) (auto split: if_splits)

lemma end_data_Nil: "end_data [] stk root = (stk, root)"
  by (simp add: end_data_def)

lemma parse_table_first:
  "\<exists>ch r. parse (TOpen Table # m) = NElem Table ch # r"
proof -
  obtain p s r where f: "fold feed m ([], [(Table, [])], []) = (p, s, r)"
    by (cases "fold feed m ([], [(Table, [])], [])")
  have i0: "table_inv [(Table, [])] []" by (simp add: table_inv_def)
  have i1: "table_inv s r" using table_inv_fold[OF i0 f] .
  obtain s1 r1 where e: "end_data p s r = (s1, r1)" by (cases "end_data p s r")
  have i2: "table_inv s1 r1" using table_inv_end_data[OF i1 e] .
  have pr: "parse (TOpen Table # m) = r1 @ close_frames [] s1"
    by (simp add: parse_def feed_def end_data_Nil f e)
  show ?thesis
  proof (cases "r1 = []")
    case True
    then have "s1 \<noteq> []" "fst (last s1) = Table" using i2 by (auto simp: table_inv_def)
    then show ?thesis using close_frames_last[of s1 "[]"] pr True by auto
  next
    case False
    then have "is_table (hd r1)" using i2 by (auto simp: table_inv_def)
    then show ?thesis using False pr
      by (cases r1; cases "hd r1") auto
  qed
qed

lemma find_table_first: "find_table (NElem Table ch # r) = Some (NElem Table ch)"
  by (simp add: find_table_def forest_nodes_def)

lemma find_table_parse:
  "\<exists>ch. find_table (parse (TOpen Table # m)) = Some (NElem Table ch)"
  using parse_table_first[of m] find_table_first by metis

subsection \<open>table_to_html and prepare_html_tables\<close>

lemma fold_cell_step: "fst (fold cell_step cs (html, cur)) = html @ emitted cur cs"
  by (induction cs arbitrary: html cur) (auto simp: cell_step_def Let_def)

lemma sorted_cells_Nil: "sorted_cells table = [] \<longleftrightarrow> cells table = []"
  using length_sort[of "\<lambda>x. (rowIndex x, columnIndex x)" "cells table"]
  unfolding sorted_cells_def by (metis length_0_conv)

lemma table_to_html_eq:
  "table_to_html table =
     (case sorted_cells table of
        [] \<Rightarrow> Inl IndexError
      | c0 # _ \<Rightarrow> Inr (TOpen Table # TText [CHR 0x0A] # emitted (rowIndex c0) (sorted_cells table)
                       @ [TClose Tr, TClose Table]))"
  unfolding table_to_html_def fold_cell_step by (cases "sorted_cells table") simp_all

lemma prepare_html_table_total:
  assumes "cells table \<noteq> []" "spans table \<noteq> []"
  shows "\<exists>h. prepare_html_table table = Inr h"
proof -
  obtain c0 r where sc: "sorted_cells table = c0 # r"
    using assms(1) sorted_cells_Nil[of table] by (cases "sorted_cells table") auto
  obtain s0 sr where sp: "spans table = s0 # sr" using assms(2) by (cases "spans table") auto
  obtain m where th: "table_to_html table = Inr (TOpen Table # m)"
    by (simp add: table_to_html_eq sc)
  obtain ch where ft: "find_table (parse (TOpen Table # m)) = Some (NElem Table ch)"
    using find_table_parse by blast
  show ?thesis
    by (simp add: prepare_html_table_def get_table_span_offsets_def sp th ft Let_def
        split: prod.splits)
qed

lemma prepare_html_table_no_cells:
  assumes "cells table = []"
  shows "prepare_html_table table = Inl IndexError"
proof -
  have sc: "sorted_cells table = []" using assms sorted_cells_Nil by blast
  show ?thesis
    by (simp add: prepare_html_table_def get_table_span_offsets_def table_to_html_def sc
        split: list.splits sum.splits prod.splits)
qed

text \<open>Plain cell texts give a markup of plain texts.\<close>

lemma plain_text_strip_escape: "plain_text s \<Longrightarrow> plain_text (strip_escape s)"
  by (induction s rule: strip_escape.induct) (auto simp: plain_text_def)

lemma plain_emitted:
  "list_all (\<lambda>c. plain_text (cell_content c)) cs \<Longrightarrow> list_all plain_token (emitted cur cs)"
  by (induction cs arbitrary: cur) (auto simp: cell_token_def plain_text_strip_escape)

lemma table_to_html_plain:
  assumes "plain_cells table" "table_to_html table = Inr m"
  shows "plain_markup m"
proof -
  have "list_all (\<lambda>c. plain_text (cell_content c)) (sorted_cells table)"
    using assms(1) by (simp add: plain_cells_def sorted_cells_def list_all_iff)
  then have "list_all plain_token (emitted cur (sorted_cells table))" for cur
    by (rule plain_emitted)
  then show ?thesis
    using assms(2)
    by (auto simp: table_to_html_eq plain_markup_def plain_text_def markup_chars_def
        split: list.splits)
qed

lemma prepare_html_table_content:
  "prepare_html_table table = Inr h \<Longrightarrow> table_to_html table = Inr (content h)"
  by (auto simp: prepare_html_table_def Let_def split: sum.splits prod.splits option.splits)

lemma prepare_html_table_plain:
  "plain_cells table \<Longrightarrow> prepare_html_table table = Inr h \<Longrightarrow> plain_markup (content h)"
  using table_to_html_plain prepare_html_table_content by blast

lemma prepare_html_table_never_malformed:
  "prepare_html_table table \<noteq> Inl MalformedTableError"
  by (auto simp: prepare_html_table_def get_table_span_offsets_def table_to_html_def Let_def
      split: sum.splits prod.splits option.splits list.splits)

text \<open>
  Claim C9, as amended. Projecting a table without cells raises an IndexError, and
  projecting a table with at least one cell, at least one span of its own and plain cell
  texts returns a record.
\<close>

theorem prepare_html_table_fails_or_returns:
  "(cells table = [] \<longrightarrow> prepare_html_table table = Inl IndexError)
   \<and> (cells table \<noteq> [] \<and> spans table \<noteq> [] \<and> plain_cells table
        \<longrightarrow> (\<exists>h. prepare_html_table table = Inr h))"
  using prepare_html_table_no_cells prepare_html_table_total by blast

theorem prepare_html_table_fails_or_returns_witness:
  "cells ex_no_cells = [] \<and> prepare_html_table ex_no_cells = Inl IndexError
   \<and> cells ex_raw_a \<noteq> [] \<and> spans ex_raw_a \<noteq> [] \<and> plain_cells ex_raw_a
   \<and> (\<exists>h. prepare_html_table ex_raw_a = Inr h)"
proof -
  have a: "cells ex_no_cells = []" by (simp add: ex_no_cells_def)
  have b: "cells ex_raw_a \<noteq> [] \<and> spans ex_raw_a \<noteq> []" by (simp add: ex_raw_a_def)
  have c: "plain_cells ex_raw_a" by code_simp
  show ?thesis
    using a b c prepare_html_table_fails_or_returns[of ex_no_cells]
      prepare_html_table_fails_or_returns[of ex_raw_a]
    by blast
qed

text \<open>
  A table without cells (and with a span, a page and declared counts): the projection
  raises IndexError, which is not the specification's \<open>MalformedTableError\<close>.
\<close>

theorem prepare_html_table_no_cells_index_error:
  "cells ex_no_cells = [] \<and> spans ex_no_cells \<noteq> []
   \<and> prepare_html_table ex_no_cells = Inl IndexError
   \<and> prepare_html_table ex_no_cells \<noteq> Inl MalformedTableError"
  by code_simp

subsection \<open>get_table_span_offsets\<close>

lemma fold_span_step:
  "fold span_step sps (mn, mx) =
     (fold min (map offset sps) mn, fold max (map (\<lambda>s. offset s + span_length s) sps) mx)"
  by (induction sps arbitrary: mn mx) (auto simp: span_step_def min_def max_def)

lemma get_table_span_offsets_eq:
  assumes "spans table \<noteq> []"
  shows "get_table_span_offsets table =
     Inr (Min (offset ` set (spans table)), Max ((\<lambda>s. offset s + span_length s) ` set (spans table)))"
proof -
  obtain s0 r where sp: "spans table = s0 # r" using assms by (cases "spans table") auto
  have a: "fold min (map offset r) (offset s0) = Min (offset ` set (spans table))"
    using Min.set_eq_fold[of "offset s0" "map offset r"] by (simp add: sp)
  have b: "fold max (map (\<lambda>s. offset s + span_length s) r) (offset s0 + span_length s0)
      = Max ((\<lambda>s. offset s + span_length s) ` set (spans table))"
    using Max.set_eq_fold[of "offset s0 + span_length s0" "map (\<lambda>s. offset s + span_length s) r"]
    by (simp add: sp)
  have "fold span_step (spans table) (offset s0, offset s0 + span_length s0)
      = fold span_step r (offset s0, offset s0 + span_length s0)"
    by (simp add: sp span_step_def)
  then show ?thesis
    by (simp add: get_table_span_offsets_def sp fold_span_step a[unfolded sp] b[unfolded sp])
qed

lemma prepare_html_table_offsets:
  assumes "prepare_html_table table = Inr h"
  shows "get_table_span_offsets table = Inr (min_offset h, max_offset h)"
  using assms
  by (auto simp: prepare_html_table_def Let_def split: sum.splits prod.splits option.splits)

text \<open>
  Claim C5, as amended. \<open>get_table_span_offsets\<close> returns the least offset and the
  greatest \<open>offset + length\<close> of the table's own spans, whenever the table has one; a
  record that the projection returns carries these two numbers as \<open>min_offset\<close> and
  \<open>max_offset\<close>; and the projection returns a record for every table with at least one
  cell, at least one span of its own and plain cell texts. The spans of the cells are
  not read.
\<close>

theorem prepare_html_table_own_spans:
  "(spans table \<noteq> [] \<longrightarrow>
      get_table_span_offsets table
        = Inr (Min (offset ` set (spans table)),
               Max ((\<lambda>s. offset s + span_length s) ` set (spans table))))
   \<and> (prepare_html_table table = Inr h \<longrightarrow>
        min_offset h = Min (offset ` set (spans table))
        \<and> max_offset h = Max ((\<lambda>s. offset s + span_length s) ` set (spans table)))
   \<and> (cells table \<noteq> [] \<and> spans table \<noteq> [] \<and> plain_cells table \<longrightarrow>
        (\<exists>h'. prepare_html_table table = Inr h'))"
proof -
  have b: "min_offset h = Min (offset ` set (spans table))
        \<and> max_offset h = Max ((\<lambda>s. offset s + span_length s) ` set (spans table))"
    if h: "prepare_html_table table = Inr h"
  proof -
    have ne: "spans table \<noteq> []"
      using h by (auto simp: prepare_html_table_def get_table_span_offsets_def)
    show ?thesis
      using prepare_html_table_offsets[OF h] get_table_span_offsets_eq[OF ne] by simp
  qed
  show ?thesis
    using get_table_span_offsets_eq b prepare_html_table_total by blast
qed

theorem prepare_html_table_own_spans_witness:
  "cells ex_raw_a \<noteq> [] \<and> spans ex_raw_a \<noteq> [] \<and> plain_cells ex_raw_a
   \<and> get_table_span_offsets ex_raw_a = Inr (100, 400)
   \<and> prepare_html_table ex_raw_a = Inr ex_a
   \<and> min_offset ex_a = 100 \<and> max_offset ex_a = 400"
proof -
  have c: "cells ex_raw_a \<noteq> []" and s: "spans ex_raw_a \<noteq> []" by (simp_all add: ex_raw_a_def)
  have p: "plain_cells ex_raw_a" by code_simp
  have r: "prepare_html_table ex_raw_a = Inr ex_a" by code_simp
  have v: "Min (offset ` set (spans ex_raw_a)) = 100"
    "Max ((\<lambda>s. offset s + span_length s) ` set (spans ex_raw_a)) = 400"
    by (simp_all add: ex_raw_a_def)
  show ?thesis
    using c s p r prepare_html_table_own_spans[of ex_raw_a ex_a] unfolding v by simp
qed

text \<open>
  A table whose own span is \<open>(10, 5)\<close> and whose cell spans \<open>(0, 100)\<close>: the projected
  offsets are 10 and 15, the bounds over the cell spans are 0 and 100.
\<close>

theorem prepare_html_table_ignores_cell_spans:
  "map_sum id (\<lambda>h. (min_offset h, max_offset h)) (prepare_html_table ex_cell_spans) = Inr (10, 15)
   \<and> cell_span_bounds ex_cell_spans = (0, 100)"
  by code_simp

subsection \<open>merge_tables_colum_wise, merge_tables_row_wise\<close>

text \<open>
  Claim C7. For two working records whose markup holds a table element, both merges
  return. When the header row counts and the body row counts agree, the column-wise
  result keeps the common body row count and adds the column counts; the row-wise result
  adds the body row counts and keeps the first table's column count, header row count
  and header text.
\<close>

theorem merge_tables_counts:
  assumes "has_table a" "has_table b"
  shows "(header_row_count a = header_row_count b \<and> non_header_row_count a = non_header_row_count b
          \<longrightarrow> (\<exists>m. merge_tables_colum_wise a b = Inr m
                 \<and> non_header_row_count m = non_header_row_count a
                 \<and> non_header_row_count m = non_header_row_count b
                 \<and> column_count m = column_count a + column_count b))
       \<and> (\<exists>m. merge_tables_row_wise a b = Inr m
                 \<and> non_header_row_count m = non_header_row_count a + non_header_row_count b
                 \<and> column_count m = column_count a
                 \<and> header_row_count m = header_row_count a
                 \<and> header_text m = header_text a)"
  using assms
  by (auto simp: has_table_def merge_tables_colum_wise_def merge_tables_row_wise_def Let_def)

theorem merge_tables_counts_witness:
  "has_table ex_a \<and> has_table ex_b
   \<and> header_row_count ex_a = header_row_count ex_b
   \<and> non_header_row_count ex_a = non_header_row_count ex_b
   \<and> (\<exists>m. merge_tables_colum_wise ex_a ex_b = Inr m
          \<and> non_header_row_count m = 1 \<and> column_count m = 2)
   \<and> (\<exists>m. merge_tables_row_wise ex_a ex_b = Inr m
          \<and> non_header_row_count m = 2 \<and> column_count m = 1
          \<and> header_row_count m = 1 \<and> header_text m = [''H''])"
proof -
  have a: "has_table ex_a" by code_simp
  have b: "has_table ex_b" by code_simp
  have c: "header_row_count ex_a = header_row_count ex_b
           \<and> non_header_row_count ex_a = non_header_row_count ex_b"
    by (simp add: ex_a_def ex_b_def)
  have v: "non_header_row_count ex_a = 1" "non_header_row_count ex_b = 1"
    "column_count ex_a = 1" "column_count ex_b = 1" "header_row_count ex_a = 1"
    "header_text ex_a = [''H'']"
    by (simp_all add: ex_a_def ex_b_def)
  show ?thesis
    using a b c merge_tables_counts[OF a b] unfolding v by simp
qed

subsection \<open>check_and_merge_column_wise, check_and_merge_row_wise\<close>

text \<open>
  Claim C1, evaluated. Tables \<open>ex_a\<close> (page 1, offsets 100 to 400) and \<open>ex_b\<close> (page 2,
  offsets 420 to 700) are one candidate pair with the gap \<open>(400, 420)\<close>, and
  \<open>check_paragraph_presence\<close> reports the paragraph at offset 410. Each pass merges the
  pair all the same: the first slot becomes \<^verbatim>\<open>None\<close> and the second holds the merged
  table, and the whole run returns one table.
\<close>

theorem check_and_merge_ignores_gap:
  "check_paragraph_presence ex_paragraphs 400 420
   \<and> find_merge_table_candidates [ex_a, ex_b] = Inr [ex_candidate]
   \<and> check_and_merge_column_wise ex_paragraphs [Some ex_a, Some ex_b] [ex_candidate]
       = Inr [None, Some ex_ab_columns]
   \<and> check_and_merge_row_wise ex_paragraphs [Some ex_a, Some ex_b] [ex_candidate]
       = Inr [None, Some ex_ab_rows]
   \<and> map_sum id length (identify_cross_page_tables [ex_raw_a, ex_raw_b] ex_paragraphs 5) = Inr 1"
  by code_simp

subsection \<open>split_table_with_headers\<close>

text \<open>
  Claim C2, evaluated. \<open>ex_no_header\<close> has no header row and the two body rows \<open>a\<close> and
  \<open>b\<close>. With \<open>max_rows = 1\<close> the split returns two fragments, and the markup of each is
  the closing table tag alone: no fragment holds a body row.
\<close>

theorem split_table_with_headers_without_header:
  "map_option find_non_header_rows (find_table (parse (content ex_no_header)))
     = Some [NElem Tr [NCell Td 1 1 ''a''], NElem Tr [NCell Td 1 1 ''b'']]
   \<and> split_table_with_headers ex_no_header 1
     = Inr [ex_no_header\<lparr>content := [TClose Table]\<rparr>, ex_no_header\<lparr>content := [TClose Table]\<rparr>]"
  by code_simp

text \<open>
  Claim C3, evaluated. \<open>ex_header_only\<close> has one header row and no body row; the split
  returns no fragment at all.
\<close>

theorem split_table_with_headers_header_only:
  "map_option find_header_rows (find_table (parse (content ex_header_only)))
     = Some [NElem Tr [NCell Th 1 1 ''H'']]
   \<and> map_option find_non_header_rows (find_table (parse (content ex_header_only))) = Some []
   \<and> split_table_with_headers ex_header_only 5 = Inr []"
  by code_simp

subsection \<open>chunks, and the split of a table that has header rows\<close>

text \<open>\<^verbatim>\<open>list[a:a + s]\<close> for a non-negative \<open>a\<close> and a positive \<open>s\<close>.\<close>

lemma py_slice_window:
  assumes "0 \<le> a" "0 < s"
  shows "py_slice xs a (a + s) = take (nat s) (drop (nat a) xs)"
proof (cases "nat a \<le> length xs")
  case True
  show ?thesis
  proof (cases "nat (a + s) \<le> length xs")
    case le: True
    have "nat (a + s) - nat a = nat s" using assms by simp
    then show ?thesis using assms True le by (simp add: py_slice_def py_clamp_def Let_def min_def)
  next
    case gt: False
    have "length (drop (nat a) xs) \<le> nat s" using assms gt by simp
    then have "take (nat s) (drop (nat a) xs) = drop (nat a) xs" by simp
    then show ?thesis using assms True gt by (simp add: py_slice_def py_clamp_def Let_def min_def)
  qed
next
  case False
  then show ?thesis using assms by (simp add: py_slice_def py_clamp_def Let_def min_def)
qed


lemma range_up_chunks:
  "0 < s \<Longrightarrow> 0 \<le> a \<Longrightarrow> b = int (length xs) \<Longrightarrow>
   concat (map (\<lambda>i. py_slice xs i (i + s)) (range_up a b s)) = drop (nat a) xs
   \<and> (\<forall>c\<in>set (map (\<lambda>i. py_slice xs i (i + s)) (range_up a b s)). c \<noteq> [] \<and> int (length c) \<le> s)"
proof (induction a b s rule: range_up.induct)
  case (1 a b s)
  show ?case
  proof (cases "a < b")
    case True
    have ru: "range_up a b s = a # range_up (a + s) b s"
      using True "1.prems"(1) by (subst range_up.simps) simp
    have IH: "concat (map (\<lambda>i. py_slice xs i (i + s)) (range_up (a + s) b s)) = drop (nat (a + s)) xs
       \<and> (\<forall>c\<in>set (map (\<lambda>i. py_slice xs i (i + s)) (range_up (a + s) b s)). c \<noteq> [] \<and> int (length c) \<le> s)"
      using "1.IH" True "1.prems" by simp
    have sl: "py_slice xs a (a + s) = take (nat s) (drop (nat a) xs)"
      by (rule py_slice_window) (use "1.prems" in simp_all)
    have ne: "take (nat s) (drop (nat a) xs) \<noteq> []"
      using True "1.prems" by simp
    have ln: "int (length (take (nat s) (drop (nat a) xs))) \<le> s"
      using "1.prems" by simp
    have dr: "drop (nat (a + s)) xs = drop (nat s) (drop (nat a) xs)"
      using "1.prems" by (simp add: nat_add_distrib add.commute)
    have cat: "take (nat s) (drop (nat a) xs) @ drop (nat (a + s)) xs = drop (nat a) xs"
      unfolding dr by (rule append_take_drop_id)
    have c1: "concat (map (\<lambda>i. py_slice xs i (i + s)) (a # range_up (a + s) b s)) = drop (nat a) xs"
      using IH cat by (simp only: list.map concat.simps sl)
    have c2: "\<forall>c\<in>set (map (\<lambda>i. py_slice xs i (i + s)) (a # range_up (a + s) b s)).
                c \<noteq> [] \<and> int (length c) \<le> s"
      using IH ne ln by (simp only: list.map set_simps ball_simps sl) blast
    show ?thesis
      unfolding ru using c1 c2 by blast
  next
    case False
    have ru: "range_up a b s = []" using False by (subst range_up.simps) simp
    show ?thesis unfolding ru using False "1.prems" by simp
  qed
qed


lemma chunks_positive:
  assumes "0 < n"
  shows "\<exists>cs. chunks xs 0 n = Inr cs \<and> concat cs = xs
            \<and> (\<forall>c\<in>set cs. c \<noteq> [] \<and> int (length c) \<le> n)"
  using range_up_chunks[OF assms, of 0 "int (length xs)" xs] assms
  by (simp add: chunks_def py_range_def)

text \<open>
  With a positive \<open>table_max_rows\<close> and at least one header row, the fragments are the
  header rows followed by the consecutive groups of body rows: no group is empty, none
  is longer than \<open>table_max_rows\<close>, and together they are the body rows, in order.
\<close>

lemma split_table_with_headers_with_header:
  assumes "find_table (parse (content t)) = Some tbl" "find_header_rows tbl \<noteq> []" "0 < n"
  shows "\<exists>cs. split_table_with_headers t n
              = Inr (map (\<lambda>chunk. t\<lparr>content := [TOpen Table] @ rows_string (find_header_rows tbl)
                                              @ rows_string chunk @ [TClose Table]\<rparr>) cs)
            \<and> concat cs = find_non_header_rows tbl
            \<and> (\<forall>c\<in>set cs. c \<noteq> [] \<and> int (length c) \<le> n)"
proof -
  obtain cs where cs: "chunks (find_non_header_rows tbl) 0 n = Inr cs"
    "concat cs = find_non_header_rows tbl" "\<forall>c\<in>set cs. c \<noteq> [] \<and> int (length c) \<le> n"
    using chunks_positive[OF assms(3)] by blast
  have "split_table_with_headers t n
      = Inr (map (\<lambda>chunk. t\<lparr>content := [TOpen Table] @ rows_string (find_header_rows tbl)
                                              @ rows_string chunk @ [TClose Table]\<rparr>) cs)"
    using assms(2) by (simp add: split_table_with_headers_def assms(1) cs(1) Let_def)
  then show ?thesis using cs(2,3) by blast
qed

subsection \<open>The header row count of prepare_html_tables\<close>

lemma feed_cell:
  "feed (cell_token c) ([], (t, ch) # fs, root) = ([], (t, ch @ [cell_node c]) # fs, root)"
  by (simp add: feed_def cell_token_def cell_node_def end_data_Nil add_children_def)

lemma feed_close_tr:
  "feed (TClose Tr) ([], (Tr, rc) # (t, ch) # fs, root) = ([], (t, ch @ [NElem Tr rc]) # fs, root)"
  by (simp add: feed_def end_data_Nil add_children_def)

lemma feed_open:
  "feed (TOpen t) ([], stk, root) = ([], (t, []) # stk, root)"
  by (simp add: feed_def end_data_Nil)

lemma feed_close_table:
  "feed (TClose Table) ([], [(Table, ch)], []) = ([], [], [NElem Table ch])"
  by (simp add: feed_def end_data_Nil add_children_def)

lemma fold_feed_rows:
  "rows_aligned cur cs \<Longrightarrow>
   fold feed (emitted cur cs @ [TClose Tr, TClose Table]) ([], [(Tr, rc), (Table, done)], [])
     = ([], [], [NElem Table (build cur rc done cs)])"
proof (induction cs arbitrary: cur rc "done")
  case Nil
  show ?case by (simp add: feed_close_tr feed_close_table)
next
  case (Cons c cs)
  have al: "rows_aligned (rowIndex c) cs" using Cons.prems by simp
  show ?case
  proof (cases "rowIndex c \<noteq> cur")
    case True
    then show ?thesis
      using Cons.IH[OF al, of "[cell_node c]" "done @ [NElem Tr rc]"]
      by (simp add: feed_close_tr feed_open feed_cell)
  next
    case False
    then have "columnIndex c \<noteq> 0" using Cons.prems by simp
    then show ?thesis
      using False Cons.IH[OF al, of "rc @ [cell_node c]" "done"]
      by (simp add: feed_cell)
  qed
qed

lemma descendants_leaves: "list_all is_leaf ch \<Longrightarrow> concat (map (\<lambda>c. c # descendants c) ch) = ch"
proof (induction ch)
  case Nil
  then show ?case by simp
next
  case (Cons a ch)
  then show ?case by (cases a) auto
qed

lemma find_all_tr_flat:
  "list_all flat ch \<Longrightarrow> filter is_tr (concat (map (\<lambda>c. c # descendants c) ch)) = filter is_tr ch"
proof (induction ch)
  case Nil
  then show ?case by simp
next
  case (Cons a ch)
  show ?case
  proof (cases a)
    case (NElem t cs)
    then have lv: "list_all is_leaf cs" using Cons.prems by simp
    have "filter is_tr cs = []"
      using lv by (induction cs) (auto elim: is_leaf.elims)
    then show ?thesis using Cons NElem descendants_leaves[OF lv] by simp
  qed (use Cons in auto)
qed

lemma has_th_row: "list_all is_leaf rc \<Longrightarrow> has_th (NElem Tr rc) = list_ex is_th rc"
  by (simp add: has_th_def descendants_leaves)

lemma is_th_cell_node: "is_th (cell_node c) = is_header_cell c"
  by (simp add: cell_node_def is_header_cell_def)

lemma is_leaf_cell_node: "is_leaf (cell_node c)"
  by (simp add: cell_node_def)

lemma build_flat:
  "list_all is_leaf rc \<Longrightarrow> list_all flat done \<Longrightarrow> list_all flat (build cur rc done cs)"
  by (induction cs arbitrary: cur rc "done") (auto simp: is_leaf_cell_node)

lemma build_count:
  "list_all is_leaf rc \<Longrightarrow>
   length (filter has_th (filter is_tr (build cur rc done cs)))
     = length (filter has_th (filter is_tr done)) + hdr_runs cur (list_ex is_th rc) cs"
proof (induction cs arbitrary: cur rc "done")
  case Nil
  then show ?case by (simp add: has_th_row)
next
  case (Cons c cs)
  show ?case
  proof (cases "rowIndex c \<noteq> cur")
    case True
    have l1: "list_all is_leaf [cell_node c]" by (simp add: is_leaf_cell_node)
    show ?thesis
      using True Cons.IH[OF l1, of "rowIndex c" "done @ [NElem Tr rc]"] Cons.prems
      by (simp add: has_th_row is_th_cell_node)
  next
    case False
    have l1: "list_all is_leaf (rc @ [cell_node c])" using Cons.prems by (simp add: is_leaf_cell_node)
    show ?thesis
      using False Cons.IH[OF l1, of cur "done"]
      by (simp add: is_th_cell_node)
  qed
qed

lemma finite_header_rows_set: "finite (header_rows_set cs)"
proof -
  have "header_rows_set cs \<subseteq> rowIndex ` set cs" by (auto simp: header_rows_set_def)
  then show ?thesis by (rule finite_subset) simp
qed

lemma hdr_runs_card:
  "sorted (cur # map rowIndex cs) \<Longrightarrow>
   hdr_runs cur b cs
     = (if b \<or> cur \<in> header_rows_set cs then 1 else 0) + card (header_rows_set cs - {cur})"
proof (induction cs arbitrary: cur b)
  case Nil
  then show ?case by (simp add: header_rows_set_def)
next
  case (Cons c cs)
  have srt: "sorted (rowIndex c # map rowIndex cs)" using Cons.prems by simp
  have ge: "\<forall>x\<in>set cs. rowIndex c \<le> rowIndex x" using Cons.prems by simp
  have le: "cur \<le> rowIndex c" using Cons.prems by simp
  show ?case
  proof (cases "rowIndex c \<noteq> cur")
    case True
    then have lt: "cur < rowIndex c" using le by simp
    have notin: "cur \<notin> header_rows_set (c # cs)"
      using lt ge by (auto simp: header_rows_set_def)
    have split: "header_rows_set (c # cs) - {cur}
        = (if is_header_cell c \<or> rowIndex c \<in> header_rows_set cs then {rowIndex c} else {})
          \<union> (header_rows_set cs - {rowIndex c})"
      using lt ge by (auto simp: header_rows_set_def)
    define A where "A = header_rows_set cs - {rowIndex c}"
    have fin: "finite A" and nin: "rowIndex c \<notin> A"
      using finite_header_rows_set by (simp_all add: A_def)
    have card: "card (header_rows_set (c # cs) - {cur})
        = (if is_header_cell c \<or> rowIndex c \<in> header_rows_set cs then 1 else 0) + card A"
      unfolding split A_def[symmetric] using card_insert_disjoint[OF fin nin] by simp
    show ?thesis
      using True notin card Cons.IH[OF srt, of "is_header_cell c"] by (simp add: A_def)
  next
    case False
    then have eq: "rowIndex c = cur" by simp
    have a: "cur \<in> header_rows_set (c # cs) \<longleftrightarrow> is_header_cell c \<or> cur \<in> header_rows_set cs"
      using eq by (auto simp: header_rows_set_def)
    have b: "header_rows_set (c # cs) - {cur} = header_rows_set cs - {cur}"
      using eq by (auto simp: header_rows_set_def)
    have srt': "sorted (cur # map rowIndex cs)" using srt eq by simp
    show ?thesis
      using eq a b Cons.IH[OF srt', of "b \<or> is_header_cell c"] by auto
  qed
qed

lemma sorted_rows: "sorted (map rowIndex (sorted_cells table))"
proof -
  have "sorted (map (\<lambda>x. (rowIndex x, columnIndex x)) (sorted_cells table))"
    by (simp add: sorted_cells_def)
  then have "sorted_wrt (\<lambda>x y. (rowIndex x, columnIndex x) \<le> (rowIndex y, columnIndex y)) (sorted_cells table)"
    by (simp add: sorted_map)
  then have "sorted_wrt (\<lambda>x y. rowIndex x \<le> rowIndex y) (sorted_cells table)"
    by (rule sorted_wrt_mono_rel[rotated]) (auto simp: less_eq_prod_def)
  then show ?thesis by (simp add: sorted_map)
qed

lemma all_header_rows_card:
  "all_header_rows table = int (card (header_rows_set (sorted_cells table)))"
proof -
  have st: "set (sorted_cells table) = set (cells table)" by (simp add: sorted_cells_def)
  have "distinct (filter (row_has_header table) (row_indices table))"
    by (simp add: row_indices_def)
  then have "card (set (filter (row_has_header table) (row_indices table)))
      = length (filter (row_has_header table) (row_indices table))"
    by (rule distinct_card)
  moreover have "set (filter (row_has_header table) (row_indices table)) = header_rows_set (sorted_cells table)"
    by (auto simp: row_indices_def row_has_header_def header_rows_set_def st list_ex_iff)
  ultimately have "length (filter (row_has_header table) (row_indices table))
      = card (header_rows_set (sorted_cells table))"
    by simp
  then show ?thesis by (simp add: all_header_rows_def)
qed

lemma card_split_member:
  "finite S \<Longrightarrow> (if x \<in> S then 1 else 0) + card (S - {x}) = card S"
  using card.remove[of S x] by (cases "x \<in> S") auto

lemma parse_well_rendered:
  assumes "columnIndex c0 = 0" "rows_aligned (rowIndex c0) r"
  shows "parse (TOpen Table # TText [CHR 0x0A] # emitted (rowIndex c0) (c0 # r) @ [TClose Tr, TClose Table])
       = [NElem Table (build (rowIndex c0) [cell_node c0] [NText [CHR 0x0A]] r)]"
proof -
  have start: "fold feed [TOpen Table, TText [CHR 0x0A], TOpen Tr, cell_token c0] ([], [], [])
      = ([], [(Tr, [cell_node c0]), (Table, [NText [CHR 0x0A]])], [])"
    by (simp add: feed_def end_data_def add_children_def norm_text_def ascii_spaces_def
        cell_token_def cell_node_def)
  have toks: "TOpen Table # TText [CHR 0x0A] # emitted (rowIndex c0) (c0 # r) @ [TClose Tr, TClose Table]
      = [TOpen Table, TText [CHR 0x0A], TOpen Tr, cell_token c0]
        @ (emitted (rowIndex c0) r @ [TClose Tr, TClose Table])"
    using assms(1) by simp
  have "fold feed ([TOpen Table, TText [CHR 0x0A], TOpen Tr, cell_token c0]
        @ (emitted (rowIndex c0) r @ [TClose Tr, TClose Table])) ([], [], [])
      = fold feed (emitted (rowIndex c0) r @ [TClose Tr, TClose Table])
          (fold feed [TOpen Table, TText [CHR 0x0A], TOpen Tr, cell_token c0] ([], [], []))"
    by (simp only: fold_append comp_def)
  also have "\<dots> = ([], [], [NElem Table (build (rowIndex c0) [cell_node c0] [NText [CHR 0x0A]] r)])"
    by (simp only: start fold_feed_rows[OF assms(2)])
  finally show ?thesis
    unfolding parse_def toks by (simp add: end_data_Nil)
qed

lemma header_rows_well_rendered:
  assumes sc: "sorted_cells table = c0 # r"
  shows "length (find_header_rows (NElem Table (build (rowIndex c0) [cell_node c0] [NText [CHR 0x0A]] r)))
       = card (header_rows_set (sorted_cells table))"
proof -
  let ?ch = "build (rowIndex c0) [cell_node c0] [NText [CHR 0x0A]] r"
  have lf: "list_all is_leaf [cell_node c0]" by (simp add: is_leaf_cell_node)
  have fl: "list_all flat ?ch" by (rule build_flat[OF lf]) simp
  have "find_header_rows (NElem Table ?ch) = filter has_th (filter is_tr ?ch)"
    by (simp add: find_header_rows_def find_all_tr_def find_all_tr_flat[OF fl])
  then have "length (find_header_rows (NElem Table ?ch)) = hdr_runs (rowIndex c0) (is_header_cell c0) r"
    using build_count[OF lf, of "rowIndex c0" "[NText [CHR 0x0A]]" r] by (simp add: is_th_cell_node)
  also have "\<dots> = hdr_runs (rowIndex c0) False (c0 # r)" by simp
  also have "\<dots> = (if rowIndex c0 \<in> header_rows_set (c0 # r) then 1 else 0)
        + card (header_rows_set (c0 # r) - {rowIndex c0})"
  proof -
    have "sorted (rowIndex c0 # map rowIndex (c0 # r))"
      using sorted_rows[of table] by (simp add: sc)
    from hdr_runs_card[OF this, of False] show ?thesis by simp
  qed
  also have "\<dots> = card (header_rows_set (c0 # r))"
    by (rule card_split_member[OF finite_header_rows_set])
  finally show ?thesis by (simp add: sc)
qed

lemma prepare_html_table_header_count:
  "prepare_html_table table = Inr h \<Longrightarrow> table_to_html table = Inr m \<Longrightarrow>
   find_table (parse m) = Some t \<Longrightarrow> header_row_count h = int (length (find_header_rows t))"
  by (auto simp: prepare_html_table_def Let_def split: sum.splits prod.splits option.splits)

text \<open>
  Claim C4, as amended. For a table with at least one span of its own and plain cell
  texts whose rows are opened regularly, the projection returns a record whose
  \<open>header_row_count\<close> is the number of rows that hold at least one header cell: all such
  rows, wherever they stand, not only the leading ones.
\<close>

theorem header_row_count_all_rows:
  assumes "rows_well_rendered table" "spans table \<noteq> []" "plain_cells table"
  shows "\<exists>h. prepare_html_table table = Inr h \<and> header_row_count h = all_header_rows table"
proof -
  obtain c0 r where sc: "sorted_cells table = c0 # r"
    and c0: "columnIndex c0 = 0" and al: "rows_aligned (rowIndex c0) r"
    using assms(1) by (auto simp: rows_well_rendered_def split: list.splits)
  obtain s0 sr where sp: "spans table = s0 # sr" using assms(2) by (cases "spans table") auto
  let ?m = "TOpen Table # TText [CHR 0x0A] # emitted (rowIndex c0) (c0 # r) @ [TClose Tr, TClose Table]"
  let ?t = "NElem Table (build (rowIndex c0) [cell_node c0] [NText [CHR 0x0A]] r)"
  have th: "table_to_html table = Inr ?m"
    by (simp add: table_to_html_eq sc)
  have ft: "find_table (parse ?m) = Some ?t"
    unfolding parse_well_rendered[OF c0 al] by (rule find_table_first)
  have cnt: "int (length (find_header_rows ?t)) = all_header_rows table"
    using header_rows_well_rendered[OF sc] by (simp add: all_header_rows_card)
  have "cells table \<noteq> []" using sc sorted_cells_Nil[of table] by simp
  then obtain h where h: "prepare_html_table table = Inr h"
    using prepare_html_table_total assms(2) by blast
  have hc: "header_row_count h = int (length (find_header_rows ?t))"
    by (rule prepare_html_table_header_count[OF h th ft])
  show ?thesis using h hc cnt by simp
qed

lemma distinct_map_insort_key:
  "distinct (map f (insort_key k x xs)) \<longleftrightarrow> f x \<notin> f ` set xs \<and> distinct (map f xs)"
  by (induction xs) (auto simp: set_insort_key)

lemma distinct_map_sort_key:
  "distinct (map f (sort_key k xs)) \<longleftrightarrow> distinct (map f xs)"
  by (induction xs) (auto simp: distinct_map_insort_key)

lemma rows_aligned_sorted:
  "sorted (map cell_key (c # cs)) \<Longrightarrow> distinct (map cell_key (c # cs)) \<Longrightarrow>
   \<forall>x\<in>set (c # cs). 0 \<le> columnIndex x \<Longrightarrow> rows_aligned (rowIndex c) cs"
proof (induction cs arbitrary: c)
  case Nil
  then show ?case by simp
next
  case (Cons d ds)
  have le: "cell_key c \<le> cell_key d" using Cons.prems(1) by simp
  have ne: "cell_key c \<noteq> cell_key d" using Cons.prems(2) by auto
  have nn: "0 \<le> columnIndex c" using Cons.prems(3) by simp
  have here: "rowIndex d \<noteq> rowIndex c \<or> columnIndex d \<noteq> 0"
    using le ne nn by (auto simp: cell_key_def less_eq_prod_def)
  have "rows_aligned (rowIndex d) ds"
    using Cons.IH[of d] Cons.prems by simp
  then show ?case using here by simp
qed

lemma grid_ok_well_rendered:
  assumes "grid_ok table"
  shows "rows_well_rendered table"
proof -
  let ?xs = "sorted_cells table"
  have st: "set ?xs = set (cells table)" by (simp add: sorted_cells_def)
  have srt: "sorted (map cell_key ?xs)"
    by (simp add: sorted_cells_def cell_key_def[abs_def])
  have dst: "distinct (map cell_key ?xs)"
    using assms by (simp add: sorted_cells_def distinct_map_sort_key grid_ok_def)
  have nn: "\<forall>x\<in>set ?xs. 0 \<le> columnIndex x"
    using assms by (simp add: st grid_ok_def list_all_iff)
  obtain c where c: "c \<in> set ?xs" "columnIndex c = 0" "\<forall>d\<in>set ?xs. rowIndex c \<le> rowIndex d"
    using assms by (auto simp: st grid_ok_def list_all_iff list_ex_iff)
  then obtain c0 r where sc: "?xs = c0 # r" by (cases ?xs) auto
  have "cell_key c0 \<le> cell_key c"
    using srt c(1) unfolding sc by auto
  moreover have "rowIndex c \<le> rowIndex c0" using c(3) sc by simp
  moreover have "0 \<le> columnIndex c0" using nn sc by simp
  ultimately have c0: "columnIndex c0 = 0"
    using c(2) by (auto simp: cell_key_def less_eq_prod_def)
  have "rows_aligned (rowIndex c0) r"
    using rows_aligned_sorted[of c0 r] srt dst nn unfolding sc by simp
  then show ?thesis using c0 by (simp add: rows_well_rendered_def sc)
qed

theorem header_row_count_all_rows_witness:
  "rows_well_rendered ex_late_header \<and> spans ex_late_header \<noteq> []
   \<and> plain_cells ex_late_header
   \<and> (\<exists>h. prepare_html_table ex_late_header = Inr h \<and> header_row_count h = 1)"
proof -
  have a: "rows_well_rendered ex_late_header" by code_simp
  have b: "spans ex_late_header \<noteq> []" by (simp add: ex_late_header_def)
  have p: "plain_cells ex_late_header" by code_simp
  have c: "all_header_rows ex_late_header = 1" by code_simp
  show ?thesis
    using a b p header_row_count_all_rows[OF a b p] unfolding c by simp
qed

text \<open>
  The table \<open>ex_late_header\<close> has a body row followed by a header row: its
  \<open>header_row_count\<close> is 1, and it has no leading row with a header cell.
\<close>

theorem header_row_count_not_leading:
  "map_sum id header_row_count (prepare_html_table ex_late_header) = Inr 1
   \<and> leading_header_rows ex_late_header = 0"
  by code_simp

end
